theory Spec2Isabelle
  imports Complex_Main "HOL-Library.Multiset" "HOL-Library.Word" "HOL-Library.Log_Nat"
begin

section \<open>Edges and the ordering used for deduplication\<close>

text \<open>
  \<^verbatim>\<open>struct Edge { int64_t src; int64_t dst; int64_t weight; int64_t timestamp; };\<close>
  The four fields are signed 64-bit integers. They are modelled as integers; every place
  where the program does arithmetic on them has its range condition written out.
\<close>

record Edge =
  src :: int
  dst :: int
  weight :: int
  timestamp :: int

text \<open>
  \<^verbatim>\<open>operator<(const Edge& a, const Edge& b)\<close>: source ascending, then destination
  ascending, then timestamp descending.
\<close>

definition edge_less :: "Edge \<Rightarrow> Edge \<Rightarrow> bool" where
  "edge_less a b =
     (if src a \<noteq> src b then src a < src b
      else if dst a \<noteq> dst b then dst a < dst b
      else timestamp a > timestamp b)"

text \<open>The lambda handed to \<^verbatim>\<open>std::unique_copy\<close> in the constructor of DeduplicatedBatch.\<close>

definition same_src_dst :: "Edge \<Rightarrow> Edge \<Rightarrow> bool" where
  "same_src_dst a b = (src a = src b \<and> dst a = dst b)"

section \<open>The standard algorithms the batches use\<close>

text \<open>
  \<^verbatim>\<open>std::unique_copy(first, last, out, pred)\<close> copies the first element of every run of
  consecutive elements that \<open>pred\<close> relates to the element kept last.
\<close>

fun unique_copy :: "('a \<Rightarrow> 'a \<Rightarrow> bool) \<Rightarrow> 'a list \<Rightarrow> 'a list" where
  "unique_copy p [] = []"
| "unique_copy p [x] = [x]"
| "unique_copy p (x # y # ys) =
     (if p x y then unique_copy p (x # ys) else x # unique_copy p (y # ys))"

text \<open>
  \<^verbatim>\<open>std::sort\<close> is not stable: it returns some permutation of its input in which no
  element is smaller than an earlier one, and which of several equivalent elements comes
  first is left open. The sort is therefore a parameter of the model, and
  \<open>sort_post\<close> is the postcondition the standard gives for one call.
\<close>

definition sort_post :: "(Edge list \<Rightarrow> Edge list) \<Rightarrow> Edge list \<Rightarrow> bool" where
  "sort_post srt xs =
     (mset (srt xs) = mset xs \<and> sorted_wrt (\<lambda>a b. \<not> edge_less b a) (srt xs))"

text \<open>One sort that meets the postcondition: insertion sort.\<close>

fun edge_insert :: "Edge \<Rightarrow> Edge list \<Rightarrow> Edge list" where
  "edge_insert e [] = [e]"
| "edge_insert e (x # xs) = (if edge_less x e then x # edge_insert e xs else e # x # xs)"

fun edge_sort :: "Edge list \<Rightarrow> Edge list" where
  "edge_sort [] = []"
| "edge_sort (x # xs) = edge_insert x (edge_sort xs)"

section \<open>Batches\<close>

text \<open>
  \<^verbatim>\<open>DeduplicatedBatch::DeduplicatedBatch(const Batch &batch)\<close>: copy the edges of the
  batch, sort the copy, and keep one edge of each run with the same source and
  destination.
\<close>

definition DeduplicatedBatch :: "(Edge list \<Rightarrow> Edge list) \<Rightarrow> Edge list \<Rightarrow> Edge list" where
  "DeduplicatedBatch srt batch =
     (let sorted_edges = srt batch
      in unique_copy same_src_dst sorted_edges)"

text \<open>
  \<^verbatim>\<open>DeduplicatedBatch::num_vertices_affected\<close>: the sources followed by the destinations
  of the deduplicated edges, sorted, with adjacent equal ids removed, counted. The sorted
  order of a list of integers is unique, so \<open>sort\<close> is \<^verbatim>\<open>std::sort\<close> here.
\<close>

definition Dedup_num_vertices_affected :: "Edge list \<Rightarrow> int" where
  "Dedup_num_vertices_affected deduped_edges =
     (let src_vertices = map src deduped_edges;
          dst_vertices = map dst deduped_edges;
          src_vertices = src_vertices @ dst_vertices;
          unique_vertices = unique_copy (=) (sort src_vertices)
      in int (length unique_vertices))"

text \<open>
  \<^verbatim>\<open>Batch::num_vertices_affected\<close>: builds the DeduplicatedBatch of the batch and asks it.
\<close>

definition Batch_num_vertices_affected :: "(Edge list \<Rightarrow> Edge list) \<Rightarrow> Edge list \<Rightarrow> int" where
  "Batch_num_vertices_affected srt batch =
     (let sorted = DeduplicatedBatch srt batch
      in Dedup_num_vertices_affected sorted)"

section \<open>Double-precision arithmetic\<close>

text \<open>
  The program computes with \<^verbatim>\<open>double\<close>: IEEE 754 binary64, every operation rounded to
  the nearest representable number, ties to the one with an even significand. A finite
  \<^verbatim>\<open>double\<close> is modelled by the rational number it denotes. Infinities and NaN are not
  modelled: every division below has its divisor checked, and all magnitudes stay far
  below the largest finite \<^verbatim>\<open>double\<close>.

  \<open>exponent x\<close>, for positive \<open>x\<close>, is the integer \<open>e\<close> with \<open>2^e \<le> x < 2^(e+1)\<close>.
  A number with exponent \<open>e\<close> is rounded to a multiple of \<open>2^(e-52)\<close>, or of
  \<open>2^(-1074)\<close> in the subnormal range.
\<close>

type_synonym double = rat

definition exponent :: "rat \<Rightarrow> int" where
  "exponent x =
     (if 1 \<le> x then int (floorlog 2 (nat \<lfloor>x\<rfloor>)) - 1
      else - int (floorlog 2 (nat (\<lceil>1 / x\<rceil> - 1))))"

definition round_half_even :: "rat \<Rightarrow> int" where
  "round_half_even x =
     (let f = \<lfloor>x\<rfloor>; r = x - of_int f
      in if r < 1 / 2 then f else if r > 1 / 2 then f + 1 else if even f then f else f + 1)"

definition round_to_double :: "rat \<Rightarrow> double" where
  "round_to_double x =
     (if x = 0 then 0
      else
        let u = 2 powi (max (exponent \<bar>x\<bar>) (- 1022) - 52)
        in sgn x * of_int (round_half_even (\<bar>x\<bar> / u)) * u)"

text \<open>
  \<^verbatim>\<open>static_cast<double>\<close> of a 64-bit integer, and the division and multiplication of
  two doubles.
\<close>

definition of_int64 :: "int \<Rightarrow> double" where
  "of_int64 x = round_to_double (of_int x)"

definition ddiv :: "double \<Rightarrow> double \<Rightarrow> double" where
  "ddiv x y = round_to_double (x / y)"

definition dmul :: "double \<Rightarrow> double \<Rightarrow> double" where
  "dmul x y = round_to_double (x * y)"

text \<open>
  \<^verbatim>\<open>true_div(x, y)\<close> casts both arguments to \<^verbatim>\<open>double\<close> and divides. It is used
  with two integers, and with an integer and a double.
\<close>

definition true_div :: "int \<Rightarrow> int \<Rightarrow> double" where
  "true_div x y = ddiv (of_int64 x) (of_int64 y)"

definition true_div_double :: "int \<Rightarrow> double \<Rightarrow> double" where
  "true_div_double x y = ddiv (of_int64 x) y"

text \<open>
  \<^verbatim>\<open>round_down(x)\<close> is \<^verbatim>\<open>static_cast<int64_t>(std::floor(x))\<close>; the implicit conversion
  of a double to \<^verbatim>\<open>int64_t\<close> truncates towards zero. Both are undefined when the
  result is not a 64-bit value, which \<open>int64\<close> tests.
\<close>

definition round_down :: "double \<Rightarrow> int" where
  "round_down x = \<lfloor>x\<rfloor>"

definition double_to_int64 :: "double \<Rightarrow> int" where
  "double_to_int64 x = (if 0 \<le> x then \<lfloor>x\<rfloor> else \<lceil>x\<rceil>)"

definition int64 :: "int \<Rightarrow> bool" where
  "int64 x = (- (2 ^ 63) \<le> x \<and> x < 2 ^ 63)"

section \<open>Fatal errors\<close>

text \<open>
  Every \<^verbatim>\<open>die()\<close> of the program is a value of \<open>error\<close>, carrying what the
  message reports. \<open>Assertion_failed\<close> is a failed \<^verbatim>\<open>assert\<close>, \<open>Length_error\<close> the
  exception of a vector constructed with a negative size, and \<open>Undefined\<close> stands for
  behaviour the language leaves undefined (division by zero, signed overflow).
\<close>

datatype error =
    Unrecognized_file_extension string
  | Batch_size_too_large int nat
  | Too_many_epochs int int
  | Edges_not_sorted
  | Self_edges
  | Failed_to_stat string
  | Failed_to_load string
  | Invalid_arguments string
  | Assertion_failed
  | Length_error
  | Undefined

section \<open>Configuration\<close>

datatype SORT_MODE = UNSORTED | PRESORT | SNAPSHOT

text \<open>
  \<^verbatim>\<open>Args\<close>: the integer fields are \<^verbatim>\<open>int64_t\<close>; \<open>window_size\<close> is a
  \<^verbatim>\<open>double\<close>, modelled by the rational number it denotes.
\<close>

record Args =
  num_epochs :: int
  input_path :: string
  batch_size :: int
  alg_names :: "string list"
  sort_mode :: SORT_MODE
  window_size :: rat
  num_trials :: int

text \<open>
  \<^verbatim>\<open>Args::validate\<close> appends one line to a string stream for every constraint that
  fails and returns the stream's contents. \<open>Args_validate_items\<close> is the list of lines
  appended, in order; \<open>Args_validate\<close> is the string returned. Each line starts with a
  tab and ends with a newline.
\<close>

definition line :: "string \<Rightarrow> string" where
  "line msg = CHR 0x09 # msg @ [CHR 0x0A]"

definition Args_validate_items :: "Args \<Rightarrow> string list" where
  "Args_validate_items args =
     (if num_epochs args < 1 then [line ''--num-epochs must be positive''] else []) @
     (if input_path args = [] then [line ''--input-path cannot be empty''] else []) @
     (if batch_size args < 1 then [line ''--batch-size must be positive''] else []) @
     (if window_size args < 0 \<or> window_size args > 1
      then [line ''--window-size must be in the range [0.0, 1.0]''] else []) @
     (if num_trials args < 1 then [line ''--num-trials must be positive''] else [])"

definition Args_validate :: "Args \<Rightarrow> string" where
  "Args_validate args = concat (Args_validate_items args)"

text \<open>
  The end of \<^verbatim>\<open>Args::parse\<close>: a non-empty message is logged after the heading
  \<^verbatim>\<open>Invalid arguments:\<close> and the program dies.
\<close>

definition Args_parse_check :: "Args \<Rightarrow> error + Args" where
  "Args_parse_check args =
     (let message = Args_validate args
      in if message \<noteq> [] then Inl (Invalid_arguments message) else Inr args)"

text \<open>
  The C port: \<^verbatim>\<open>struct dynograph_args\<close> and its \<^verbatim>\<open>validate\<close>, which prints a line
  and returns false at the first constraint that fails. The result is the list of lines
  printed and the value returned.
\<close>

record dynograph_args =
  c_num_epochs :: int
  c_input_path :: string
  c_batch_size :: int
  c_alg_names :: string
  c_sort_mode :: SORT_MODE
  c_window_size :: rat
  c_num_trials :: int

definition validate :: "dynograph_args \<Rightarrow> string list \<times> bool" where
  "validate args =
     (if c_num_epochs args < 1 then ([line ''--num-epochs must be positive''], False)
      else if length (c_input_path args) = 0 then ([line ''--input-path cannot be empty''], False)
      else if c_batch_size args < 1 then ([line ''--batch-size must be positive''], False)
      else if c_window_size args < 0 \<or> c_window_size args > 1
        then ([line ''--window-size must be in the range [0.0, 1.0]''], False)
      else if c_num_trials args < 1 then ([line ''--num-trials must be positive''], False)
      else ([], True))"

text \<open>
  The end of \<^verbatim>\<open>dynograph_args_parse\<close>: when \<^verbatim>\<open>validate\<close> returns false the program
  prints a closing line and dies. The error carries everything printed.
\<close>

definition dynograph_args_parse_check :: "dynograph_args \<Rightarrow> error + dynograph_args" where
  "dynograph_args_parse_check args =
     (let (printed, args_are_valid) = validate args
      in if \<not> args_are_valid
         then Inl (Invalid_arguments
                     (concat printed @ ''Terminating due to invalid arguments''))
         else Inr args)"

text \<open>
  The constraints of the configuration, one per test of \<^verbatim>\<open>Args::validate\<close>, as the
  specification lists them.
\<close>

datatype constraint =
  Num_epochs_positive | Input_path_given | Batch_size_positive | Window_size_in_range
  | Num_trials_positive

definition all_constraints :: "constraint list" where
  "all_constraints =
     [Num_epochs_positive, Input_path_given, Batch_size_positive, Window_size_in_range,
      Num_trials_positive]"

fun violated :: "Args \<Rightarrow> constraint \<Rightarrow> bool" where
  "violated args Num_epochs_positive = (num_epochs args < 1)"
| "violated args Input_path_given = (input_path args = [])"
| "violated args Batch_size_positive = (batch_size args < 1)"
| "violated args Window_size_in_range = (window_size args < 0 \<or> window_size args > 1)"
| "violated args Num_trials_positive = (num_trials args < 1)"

fun entry :: "constraint \<Rightarrow> string" where
  "entry Num_epochs_positive = line ''--num-epochs must be positive''"
| "entry Input_path_given = line ''--input-path cannot be empty''"
| "entry Batch_size_positive = line ''--batch-size must be positive''"
| "entry Window_size_in_range = line ''--window-size must be in the range [0.0, 1.0]''"
| "entry Num_trials_positive = line ''--num-trials must be positive''"

section \<open>Loading a binary edge file\<close>

text \<open>
  A record is 32 bytes: four 64-bit integers in the byte order of the machine
  (little-endian), read back as signed.
\<close>

type_synonym byte = "8 word"

definition le_int64 :: "byte list \<Rightarrow> int" where
  "le_int64 bs =
     (let u = foldr (\<lambda>b acc. uint b + 256 * acc) bs 0
      in if u \<ge> 2 ^ 63 then u - 2 ^ 64 else u)"

definition decode_edge :: "byte list \<Rightarrow> Edge" where
  "decode_edge bs =
     \<lparr>src = le_int64 (take 8 bs), dst = le_int64 (take 8 (drop 8 bs)),
      weight = le_int64 (take 8 (drop 16 bs)), timestamp = le_int64 (take 8 (drop 24 bs))\<rparr>"

text \<open>
  What the loader sees of a path are the answers of two system calls, and the code asks
  them independently of each other. \<^verbatim>\<open>stat\<close> fails, or reports a size in bytes.
  \<^verbatim>\<open>fopen(path, "rb")\<close> returns \<^verbatim>\<open>NULL\<close>, or a stream, here the bytes that can be
  read from it. For a regular file that can be read the stream holds as many bytes as
  \<^verbatim>\<open>stat\<close> reports. The two differ elsewhere: a directory has a size and can be
  opened, but reading it fails, so its stream yields no byte; a file without read
  permission has a size and cannot be opened. The file system is a map from paths to such
  entries; a path without an entry is one that \<^verbatim>\<open>stat\<close> does not find.
\<close>

record file_entry =
  st_size :: nat
  fopen :: "byte list option"

text \<open>
  \<^verbatim>\<open>fread(ptr, 32, n, fp)\<close> from the start of the stream: it stores the complete
  records it can read, at most \<open>n\<close>, and returns how many.
\<close>

fun fread :: "byte list \<Rightarrow> nat \<Rightarrow> Edge list" where
  "fread bytes 0 = []"
| "fread bytes (Suc n) =
     (if length bytes < 32 then []
      else decode_edge (take 32 bytes) # fread (drop 32 bytes) n)"

text \<open>
  \<^verbatim>\<open>EdgeListDataset::loadEdgesBinary\<close>, statement by statement. The result of
  \<^verbatim>\<open>fopen\<close> is not tested. The size of the file is divided by \<^verbatim>\<open>sizeof(Edge)\<close>,
  which is 32, rounding down; nothing looks at the remainder. The vector is resized to
  that many edges, and \<^verbatim>\<open>&edges[0]\<close> is passed to \<^verbatim>\<open>fread\<close>: with no edge, the
  subscript is outside the vector, which is undefined; so is \<^verbatim>\<open>fread\<close> on a stream
  that is \<^verbatim>\<open>NULL\<close>. A read that stores fewer records than the size promised is the
  fatal error \<^verbatim>\<open>Failed to load graph\<close>.
\<close>

definition loadEdgesBinary :: "(string \<Rightarrow> file_entry option) \<Rightarrow> string \<Rightarrow> error + Edge list" where
  "loadEdgesBinary fs path =
     (case fs path of
        None \<Rightarrow> Inl (Failed_to_stat path)
      | Some f \<Rightarrow>
          (let fp = fopen f;
               numEdges = st_size f div 32
           in
           if numEdges = 0 then Inl Undefined
           else
             case fp of
               None \<Rightarrow> Inl Undefined
             | Some bytes \<Rightarrow>
                 (let edges = fread bytes numEdges;
                      rc = length edges
                  in if rc \<noteq> numEdges then Inl (Failed_to_load path) else Inr edges)))"

section \<open>The dataset of a loaded edge list\<close>

text \<open>
  A \<^verbatim>\<open>Batch\<close> is a pair of iterators into the vector of edges; here a pair of
  positions. Its edges are the ones from \<open>begin_iter\<close> up to, not including,
  \<open>end_iter\<close>.
\<close>

record Batch =
  begin_iter :: nat
  end_iter :: nat

definition batch_edges :: "Edge list \<Rightarrow> Batch \<Rightarrow> Edge list" where
  "batch_edges edges b = take (end_iter b - begin_iter b) (drop (begin_iter b) edges)"

record EdgeListDataset =
  ds_args :: Args
  edges :: "Edge list"
  batches :: "Batch list"
  max_vertex_id :: int
  min_timestamp :: int
  max_timestamp :: int

text \<open>\<^verbatim>\<open>static_cast<size_t>\<close> of a 64-bit signed integer.\<close>

definition to_size_t :: "int \<Rightarrow> nat" where
  "to_size_t x = nat (x mod 2 ^ 64)"

text \<open>
  \<^verbatim>\<open>std::is_sorted(first, last, comp)\<close>: no element is smaller (by \<open>cmp\<close>) than its
  predecessor.
\<close>

fun is_sorted :: "('a \<Rightarrow> 'a \<Rightarrow> bool) \<Rightarrow> 'a list \<Rightarrow> bool" where
  "is_sorted cmp [] = True"
| "is_sorted cmp [x] = True"
| "is_sorted cmp (x # y # ys) = (if cmp y x then False else is_sorted cmp (y # ys))"

text \<open>
  \<^verbatim>\<open>std::max_element(first, last, comp)\<close> on a non-empty range: the first element
  such that no element is greater (by \<open>cmp\<close>).
\<close>

fun max_element :: "('a \<Rightarrow> 'a \<Rightarrow> bool) \<Rightarrow> 'a \<Rightarrow> 'a list \<Rightarrow> 'a" where
  "max_element cmp largest [] = largest"
| "max_element cmp largest (x # xs) =
     (if cmp largest x then max_element cmp x xs else max_element cmp largest xs)"

text \<open>
  The loop that stores the batches, \<^verbatim>\<open>for (int i = 0; i < num_batches; ++i)\<close>: batch
  \<open>i\<close> runs from \<open>i * batch_size\<close> to \<open>i * batch_size + batch_size\<close>.
\<close>

definition make_batches :: "nat \<Rightarrow> nat \<Rightarrow> Batch list" where
  "make_batches num_batches bsize =
     map (\<lambda>i. \<lparr>begin_iter = i * bsize, end_iter = i * bsize + bsize\<rparr>) [0..<num_batches]"

text \<open>
  The constructor \<^verbatim>\<open>EdgeListDataset::EdgeListDataset(Args args)\<close>, from the point where
  the edges have been loaded. The division by \<open>batch_size\<close> is an unsigned one (the
  size of a vector divided by an \<^verbatim>\<open>int64_t\<close>); a batch size of zero divides by zero,
  and a loop counter of type \<^verbatim>\<open>int\<close> cannot count beyond \<open>2^31 - 1\<close>.
\<close>

definition EdgeListDataset_init :: "Args \<Rightarrow> Edge list \<Rightarrow> error + EdgeListDataset" where
  "EdgeListDataset_init args es =
     (if to_size_t (batch_size args) = 0 then Inl Undefined
      else
        let num_batches = int (length es div to_size_t (batch_size args)) in
        if to_size_t (batch_size args) > length es
          then Inl (Batch_size_too_large (batch_size args) (length es))
        else if num_epochs args > num_batches
          then Inl (Too_many_epochs (num_epochs args) num_batches)
        else
          let max_edge = max_element (\<lambda>a b. max (src a) (dst a) < max (src b) (dst b))
                           (hd es) (tl es)
          in
          if \<not> is_sorted (\<lambda>a b. timestamp a < timestamp b) es then Inl Edges_not_sorted
          else if find (\<lambda>e. src e = dst e) es \<noteq> None then Inl Self_edges
          else if num_batches > 2 ^ 31 - 1 then Inl Undefined
          else Inr \<lparr>ds_args = args, edges = es,
                    batches = make_batches (nat num_batches) (to_size_t (batch_size args)),
                    max_vertex_id = max (src max_edge) (dst max_edge),
                    min_timestamp = timestamp (hd es),
                    max_timestamp = timestamp (last es)\<rparr>)"

text \<open>\<^verbatim>\<open>EdgeListDataset::getBatch\<close>: an index outside the vector of batches is undefined.\<close>

definition getBatch :: "EdgeListDataset \<Rightarrow> int \<Rightarrow> error + Batch" where
  "getBatch ds batchId =
     (if 0 \<le> batchId \<and> batchId < int (length (batches ds))
      then Inr (batches ds ! nat batchId) else Inl Undefined)"

text \<open>
  \<^verbatim>\<open>EdgeListDataset::getTimestampForWindow\<close>. The subtractions are 64-bit signed ones,
  undefined when they overflow.
\<close>

definition getTimestampForWindow :: "EdgeListDataset \<Rightarrow> int \<Rightarrow> error + int" where
  "getTimestampForWindow ds batchId =
     (if \<not> (0 \<le> batchId \<and> batchId < int (length (batches ds))) then Inl Undefined
      else if \<not> int64 (max_timestamp ds - min_timestamp ds) then Inl Undefined
      else
        let window_time =
              round_down (dmul (window_size (ds_args ds))
                            (of_int64 (max_timestamp ds - min_timestamp ds)));
            latest_time = timestamp (edges ds ! (end_iter (batches ds ! nat batchId) - 1))
        in
        if int64 window_time \<and> int64 (latest_time - window_time)
        then Inr (max (min_timestamp ds) (latest_time - window_time))
        else Inl Undefined)"

text \<open>
  \<^verbatim>\<open>EdgeListDataset::enableAlgsForBatch\<close>. A division by zero leaves the finite doubles.
\<close>

definition enableAlgsForBatch :: "EdgeListDataset \<Rightarrow> int \<Rightarrow> error + bool" where
  "enableAlgsForBatch ds batch_id =
     (if num_epochs (ds_args ds) = 0 then Inl Undefined
      else
        let batches_per_epoch = true_div (int (length (batches ds))) (num_epochs (ds_args ds))
        in
        if batches_per_epoch = 0 then Inl Undefined
        else
          let batches_before = round_down (true_div_double batch_id batches_per_epoch);
              batches_after = round_down (true_div_double (batch_id + 1) batches_per_epoch)
          in
          if int64 batches_before \<and> int64 batches_after
          then Inr (batches_after - batches_before > 0)
          else Inl Undefined)"

section \<open>The generated dataset\<close>

text \<open>
  \<^verbatim>\<open>RmatArgs\<close>: four probabilities (\<^verbatim>\<open>double\<close>) and two counts (\<^verbatim>\<open>int64_t\<close>).
\<close>

record RmatArgs =
  rmat_a :: rat
  rmat_b :: rat
  rmat_c :: rat
  rmat_d :: rat
  rmat_num_edges :: int
  rmat_num_vertices :: int

text \<open>
  The class \<^verbatim>\<open>rmat_edge_generator\<close> is not part of the sources at hand. It enters the
  model as two parameters: \<open>mk_gen\<close>, the constructor, a function of the number of
  vertices and the four probabilities, and \<open>next_edge\<close>, which returns a source and a
  destination and the generator's next state.
\<close>

type_synonym 'g next_edge = "'g \<Rightarrow> (int \<times> int) \<times> 'g"
type_synonym 'g mk_gen = "int \<Rightarrow> rat \<Rightarrow> rat \<Rightarrow> rat \<Rightarrow> rat \<Rightarrow> 'g"

text \<open>
  \<^verbatim>\<open>do { generator.next_edge(&e.src, &e.dst); } while (e.src == e.dst);\<close>
  The loop runs until the generator yields an edge that is not a self-edge; if it never
  does, the loop does not end, and the value is \<open>None\<close>.
\<close>

partial_function (option) next_non_self :: "'g next_edge \<Rightarrow> 'g \<Rightarrow> ((int \<times> int) \<times> 'g) option" where
  "next_non_self next_edge g =
     (case next_edge g of
        ((s, t), g') \<Rightarrow> if s = t then next_non_self next_edge g' else Some ((s, t), g'))"

text \<open>
  The body of \<^verbatim>\<open>RmatBatch::RmatBatch\<close>: \<open>n\<close> more edges, each with weight 1 and the
  next timestamp.
\<close>

fun RmatBatch_loop :: "'g next_edge \<Rightarrow> 'g \<Rightarrow> nat \<Rightarrow> int \<Rightarrow> (Edge list \<times> 'g) option" where
  "RmatBatch_loop next_edge g 0 first_timestamp = Some ([], g)"
| "RmatBatch_loop next_edge g (Suc n) first_timestamp =
     (case next_non_self next_edge g of
        None \<Rightarrow> None
      | Some ((s, t), g') \<Rightarrow>
          (case RmatBatch_loop next_edge g' n (first_timestamp + 1) of
             None \<Rightarrow> None
           | Some (es, g'') \<Rightarrow>
               Some (\<lparr>src = s, dst = t, weight = 1, timestamp = first_timestamp\<rparr> # es, g'')))"

text \<open>
  \<^verbatim>\<open>RmatBatch::RmatBatch(generator, size, first_timestamp)\<close>. A negative size makes
  the vector's constructor throw; the loop counter is an \<^verbatim>\<open>int\<close>; the timestamp is
  incremented once for every edge and must stay a 64-bit value.
\<close>

definition RmatBatch :: "'g next_edge \<Rightarrow> 'g \<Rightarrow> int \<Rightarrow> int \<Rightarrow> (error + Edge list \<times> 'g) option" where
  "RmatBatch next_edge g sz first_timestamp =
     (if sz < 0 then Some (Inl Length_error)
      else if sz > 2 ^ 31 - 1 \<or> first_timestamp + sz > 2 ^ 63 - 1 then Some (Inl Undefined)
      else map_option Inr (RmatBatch_loop next_edge g (nat sz) first_timestamp))"

record 'g RmatDataset =
  rds_args :: Args
  rmat_args :: RmatArgs
  current_batch :: int
  num_edges :: int
  num_batches :: int
  num_vertices :: int
  next_timestamp :: int
  generator :: 'g

text \<open>
  The constructor \<^verbatim>\<open>RmatDataset::RmatDataset(Args args, RmatArgs rmat_args)\<close>. The
  division is the truncating one of C++.
\<close>

definition trunc_div :: "int \<Rightarrow> int \<Rightarrow> int" where
  "trunc_div x y = sgn x * sgn y * (\<bar>x\<bar> div \<bar>y\<bar>)"

definition RmatDataset_init :: "'g mk_gen \<Rightarrow> Args \<Rightarrow> RmatArgs \<Rightarrow> error + 'g RmatDataset" where
  "RmatDataset_init mk_gen args rargs =
     (if batch_size args = 0 then Inl Undefined
      else
        let ne = rmat_num_edges rargs;
            nb = trunc_div ne (batch_size args)
        in
        if to_size_t (batch_size args) > to_size_t ne
          then Inl (Batch_size_too_large (batch_size args) (to_size_t ne))
        else if num_epochs args > nb then Inl (Too_many_epochs (num_epochs args) nb)
        else Inr \<lparr>rds_args = args, rmat_args = rargs, current_batch = 0, num_edges = ne,
                  num_batches = nb, num_vertices = rmat_num_vertices rargs, next_timestamp = 0,
                  generator = mk_gen (rmat_num_vertices rargs) (rmat_a rargs) (rmat_b rargs)
                                (rmat_c rargs) (rmat_d rargs)\<rparr>)"

text \<open>
  \<^verbatim>\<open>RmatDataset::getBatch\<close>: batches are generated in order. The result is the batch
  and the dataset after the call.
\<close>

definition Rmat_getBatch ::
  "'g next_edge \<Rightarrow> 'g RmatDataset \<Rightarrow> int \<Rightarrow> (error + Edge list \<times> 'g RmatDataset) option" where
  "Rmat_getBatch next_edge ds batchId =
     (if batchId \<noteq> current_batch ds then Some (Inl Assertion_failed)
      else
        let first_timestamp = next_timestamp ds in
        case RmatBatch next_edge (generator ds) (batch_size (rds_args ds)) first_timestamp of
          None \<Rightarrow> None
        | Some (Inl e) \<Rightarrow> Some (Inl e)
        | Some (Inr (es, g')) \<Rightarrow>
            Some (Inr (es, ds\<lparr>current_batch := current_batch ds + 1,
                              next_timestamp := first_timestamp + batch_size (rds_args ds),
                              generator := g'\<rparr>)))"

text \<open>\<^verbatim>\<open>RmatDataset::reset\<close>.\<close>

definition Rmat_reset :: "'g mk_gen \<Rightarrow> 'g RmatDataset \<Rightarrow> 'g RmatDataset" where
  "Rmat_reset mk_gen ds =
     ds\<lparr>current_batch := 0, next_timestamp := 0,
        generator := mk_gen (rmat_num_vertices (rmat_args ds)) (rmat_a (rmat_args ds))
                       (rmat_b (rmat_args ds)) (rmat_c (rmat_args ds)) (rmat_d (rmat_args ds))\<rparr>"

text \<open>
  \<^verbatim>\<open>RmatDataset::getTimestampForWindow\<close>. The product of an integer and a double is
  computed in double precision and truncated when it is stored in an \<^verbatim>\<open>int64_t\<close>.
\<close>

definition Rmat_getTimestampForWindow :: "'g RmatDataset \<Rightarrow> int \<Rightarrow> error + int" where
  "Rmat_getTimestampForWindow ds batchId =
     (let window_time = double_to_int64 (dmul (of_int64 (num_edges ds)) (window_size (rds_args ds)));
          latest_time = (batchId + 1) * batch_size (rds_args ds)
      in
      if int64 window_time \<and> int64 (batchId + 1) \<and> int64 latest_time
         \<and> int64 (latest_time - window_time)
      then Inr (max 0 (latest_time - window_time))
      else Inl Undefined)"

text \<open>\<^verbatim>\<open>RmatDataset::enableAlgsForBatch\<close>.\<close>

definition Rmat_enableAlgsForBatch :: "'g RmatDataset \<Rightarrow> int \<Rightarrow> error + bool" where
  "Rmat_enableAlgsForBatch ds batch_id =
     (if num_epochs (rds_args ds) = 0 then Inl Undefined
      else
        let batches_per_epoch = true_div (num_batches ds) (num_epochs (rds_args ds))
        in
        if batches_per_epoch = 0 then Inl Undefined
        else
          let batches_before = round_down (true_div_double batch_id batches_per_epoch);
              batches_after = round_down (true_div_double (batch_id + 1) batches_per_epoch)
          in
          if int64 batches_before \<and> int64 batches_after
          then Inr (batches_after - batches_before > 0)
          else Inl Undefined)"

text \<open>
  The formula of the specification for the window threshold, from the window size, the
  least and the greatest timestamp of the dataset and the timestamp of the last edge of
  the batch; the product is the one the program computes, in double precision.
\<close>

definition window_formula :: "double \<Rightarrow> int \<Rightarrow> int \<Rightarrow> int \<Rightarrow> int" where
  "window_formula wsize min_ts max_ts t_last =
     max min_ts (t_last - round_down (dmul wsize (of_int64 (max_ts - min_ts))))"

text \<open>The calls \<^verbatim>\<open>getBatch(id)\<close> for the ids of a list, one after the other.\<close>

fun Rmat_getBatches ::
  "'g next_edge \<Rightarrow> 'g RmatDataset \<Rightarrow> int list
     \<Rightarrow> (error + Edge list list \<times> 'g RmatDataset) option" where
  "Rmat_getBatches next_edge ds [] = Some (Inr ([], ds))"
| "Rmat_getBatches next_edge ds (i # ids) =
     (case Rmat_getBatch next_edge ds i of
        None \<Rightarrow> None
      | Some (Inl e) \<Rightarrow> Some (Inl e)
      | Some (Inr (es, ds')) \<Rightarrow>
          (case Rmat_getBatches next_edge ds' ids of
             None \<Rightarrow> None
           | Some (Inl e) \<Rightarrow> Some (Inl e)
           | Some (Inr (bs, ds'')) \<Rightarrow> Some (Inr (es # bs, ds''))))"

text \<open>
  Whether the loop above ends depends on the generator. \<open>skip next_edge k g\<close> is the
  generator's state after \<open>k\<close> edges; a generator is \<open>productive\<close> when from every
  state it yields an edge that is not a self-edge after finitely many steps.
\<close>

fun skip :: "'g next_edge \<Rightarrow> nat \<Rightarrow> 'g \<Rightarrow> 'g" where
  "skip next_edge 0 g = g"
| "skip next_edge (Suc k) g = skip next_edge k (snd (next_edge g))"

definition productive :: "'g next_edge \<Rightarrow> bool" where
  "productive next_edge =
     (\<forall>g. \<exists>k. case next_edge (skip next_edge k g) of ((s, t), g') \<Rightarrow> s \<noteq> t)"

text \<open>
  What the generator yields: \<open>draws next_edge g k\<close> are the first \<open>k\<close> pairs of
  source and destination that successive calls of \<^verbatim>\<open>next_edge\<close> return from the state
  \<open>g\<close>, in the order of the calls. \<open>endpoints\<close> reads the pair off an edge of a batch,
  and \<open>not_self\<close> holds of a pair that is not a self-edge.
\<close>

fun draws :: "'g next_edge \<Rightarrow> 'g \<Rightarrow> nat \<Rightarrow> (int \<times> int) list" where
  "draws next_edge g 0 = []"
| "draws next_edge g (Suc k) = fst (next_edge g) # draws next_edge (snd (next_edge g)) k"

definition endpoints :: "Edge \<Rightarrow> int \<times> int" where
  "endpoints e = (src e, dst e)"

definition not_self :: "int \<times> int \<Rightarrow> bool" where
  "not_self p = (fst p \<noteq> snd p)"

section \<open>Concrete inputs\<close>

text \<open>Inputs at which the theorems below are evaluated.\<close>

definition ex_args :: Args where
  "ex_args = \<lparr>num_epochs = 2, input_path = ''example.graph.el'', batch_size = 2, alg_names = [],
     sort_mode = PRESORT, window_size = 1, num_trials = 1\<rparr>"

definition ex_edges :: "Edge list" where
  "ex_edges = [\<lparr>src = 1, dst = 2, weight = 1, timestamp = 0\<rparr>, \<lparr>src = 1, dst = 3, weight = 1, timestamp = 1\<rparr>,
       \<lparr>src = 1, dst = 2, weight = 5, timestamp = 2\<rparr>, \<lparr>src = 2, dst = 3, weight = 1, timestamp = 3\<rparr>,
       \<lparr>src = 3, dst = 4, weight = 1, timestamp = 4\<rparr>]"

definition ex_dataset :: EdgeListDataset where
  "ex_dataset = \<lparr>ds_args = ex_args, edges = ex_edges,
      batches = [\<lparr>begin_iter = 0, end_iter = 2\<rparr>, \<lparr>begin_iter = 2, end_iter = 4\<rparr>],
      max_vertex_id = 4, min_timestamp = 0, max_timestamp = 4\<rparr>"

definition one_edge_bytes :: "byte list" where
  "one_edge_bytes = [1,0,0,0,0,0,0,0, 2,0,0,0,0,0,0,0, 1,0,0,0,0,0,0,0, 0,0,0,0,0,0,0,0]"

text \<open>
  A file system with a file of 33 bytes, one record and one byte more; a file of 32 bytes;
  a directory, which has a size and yields no byte; and nothing else.
\<close>

definition missized_fs :: "string \<Rightarrow> file_entry option" where
  "missized_fs path =
     (if path = ''g.graph.bin''
        then Some \<lparr>st_size = 33, fopen = Some (one_edge_bytes @ [7])\<rparr>
      else if path = ''one.graph.bin''
        then Some \<lparr>st_size = 32, fopen = Some one_edge_bytes\<rparr>
      else if path = ''dir.graph.bin''
        then Some \<lparr>st_size = 4096, fopen = Some []\<rparr>
      else None)"

definition bad_c_args :: dynograph_args where
  "bad_c_args = \<lparr>c_num_epochs = 0, c_input_path = ''edges.graph.bin'', c_batch_size = 0,
     c_alg_names = ''bfs'', c_sort_mode = UNSORTED, c_window_size = 1, c_num_trials = 1\<rparr>"

definition bad_args :: Args where
  "bad_args = \<lparr>num_epochs = 0, input_path = ''edges.graph.bin'', batch_size = 0,
     alg_names = [''bfs''], sort_mode = UNSORTED, window_size = 1, num_trials = 1\<rparr>"

text \<open>
  A generator for the examples: its state counts the edges drawn; edge \<open>k\<close> is a
  self-edge when \<open>k\<close> is even and runs from \<open>k\<close> to \<open>k + 1\<close> otherwise.
\<close>

definition toy_next :: "nat next_edge" where
  "toy_next k = ((int k, int (k + k mod 2)), Suc k)"

definition toy_mk :: "nat mk_gen" where
  "toy_mk nv pa pb pc pd = 0"

definition rmat_ex_args :: Args where
  "rmat_ex_args = \<lparr>num_epochs = 2, input_path = ''0.55-0.15-0.15-0.15-4-8.rmat'', batch_size = 2,
     alg_names = [], sort_mode = UNSORTED, window_size = 0, num_trials = 2\<rparr>"

definition rmat_ex_rargs :: RmatArgs where
  "rmat_ex_rargs = \<lparr>rmat_a = 55 / 100, rmat_b = 15 / 100, rmat_c = 15 / 100, rmat_d = 15 / 100,
     rmat_num_edges = 4, rmat_num_vertices = 8\<rparr>"

definition rmat_ex :: "nat RmatDataset" where
  "rmat_ex = \<lparr>rds_args = rmat_ex_args, rmat_args = rmat_ex_rargs, current_batch = 0,
     num_edges = 4, num_batches = 2, num_vertices = 8, next_timestamp = 0, generator = 0\<rparr>"

text \<open>A dataset of nine batches of one edge each, to be run in seven epochs.\<close>

definition args9 :: Args where
  "args9 = \<lparr>num_epochs = 7, input_path = ''nine.graph.el'', batch_size = 1, alg_names = [],
     sort_mode = UNSORTED, window_size = 1, num_trials = 1\<rparr>"

definition edges9 :: "Edge list" where
  "edges9 = map (\<lambda>i. \<lparr>src = int i, dst = int i + 1, weight = 1, timestamp = int i\<rparr>) [0..<9]"

definition ds9 :: EdgeListDataset where
  "ds9 = \<lparr>ds_args = args9, edges = edges9, batches = make_batches 9 1, max_vertex_id = 9,
     min_timestamp = 0, max_timestamp = 8\<rparr>"

section \<open>Facts about the standard algorithms\<close>

lemma set_unique_copy_subset: "set (unique_copy p xs) \<subseteq> set xs"
  by (induction p xs rule: unique_copy.induct) auto

lemma unique_copy_eq_remdups_adj: "unique_copy (=) xs = remdups_adj xs"
  by (induction xs rule: remdups_adj.induct) auto

lemma mset_edge_insert: "mset (edge_insert e xs) = add_mset e (mset xs)"
  by (induction xs) auto

lemma mset_edge_sort: "mset (edge_sort xs) = mset xs"
  by (induction xs) (auto simp: mset_edge_insert)

lemma edge_less_asym: "edge_less a b \<Longrightarrow> \<not> edge_less b a"
  by (auto simp: edge_less_def split: if_splits)

lemma edge_not_less_trans:
  "\<not> edge_less b a \<Longrightarrow> \<not> edge_less c b \<Longrightarrow> \<not> edge_less c a"
  by (auto simp: edge_less_def split: if_splits)

lemma set_edge_insert: "set (edge_insert e xs) = insert e (set xs)"
  by (induction xs) auto

lemma sorted_edge_insert:
  "sorted_wrt (\<lambda>a b. \<not> edge_less b a) xs
   \<Longrightarrow> sorted_wrt (\<lambda>a b. \<not> edge_less b a) (edge_insert e xs)"
proof (induction xs)
  case Nil
  then show ?case by simp
next
  case (Cons x xs)
  show ?case
  proof (cases "edge_less x e")
    case True
    have "\<not> edge_less e x" using True by (rule edge_less_asym)
    with Cons True show ?thesis by (auto simp: set_edge_insert)
  next
    case False
    have "\<forall>y\<in>set xs. \<not> edge_less y e"
    proof
      fix y assume "y \<in> set xs"
      with Cons.prems have "\<not> edge_less y x" by simp
      with False show "\<not> edge_less y e" by (rule edge_not_less_trans)
    qed
    with Cons.prems False show ?thesis by simp
  qed
qed

lemma sorted_edge_sort: "sorted_wrt (\<lambda>a b. \<not> edge_less b a) (edge_sort xs)"
  by (induction xs) (auto intro: sorted_edge_insert)

lemma sort_post_edge_sort: "sort_post edge_sort xs"
  by (simp add: sort_post_def mset_edge_sort sorted_edge_sort)

section \<open>Deduplication keeps the newest edge of every group\<close>


lemma same_src_dst_first_group:
  assumes "sorted_wrt (\<lambda>a b. \<not> edge_less b a) (x # y # ys)" "\<not> same_src_dst x y" "z \<in> set (y # ys)"
  shows "\<not> same_src_dst x z"
proof (cases "z = y")
  case True
  with assms(2) show ?thesis by simp
next
  case False
  with assms(3) have "z \<in> set ys" by simp
  with assms(1) have yz: "\<not> edge_less z y" by simp
  from assms(1) have xy: "\<not> edge_less y x" by simp
  from xy yz assms(2) show ?thesis
    unfolding same_src_dst_def edge_less_def by (auto split: if_splits)
qed

lemma filter_unique_copy_sorted:
  "sorted_wrt (\<lambda>a b. \<not> edge_less b a) ys \<Longrightarrow>
   filter (same_src_dst e) (unique_copy same_src_dst ys) = take 1 (filter (same_src_dst e) ys)"
proof (induction same_src_dst ys rule: unique_copy.induct)
  case 1
  then show ?case by simp
next
  case (2 x)
  then show ?case by simp
next
  case (3 x y ys)
  show ?case
  proof (cases "same_src_dst x y")
    case True
    from "3.prems" have s: "sorted_wrt (\<lambda>a b. \<not> edge_less b a) (x # ys)" by simp
    have ih: "filter (same_src_dst e) (unique_copy same_src_dst (x # ys)) = take 1 (filter (same_src_dst e) (x # ys))"
      using "3.hyps"(1)[OF True s] .
    from True have "same_src_dst e x = same_src_dst e y" by (auto simp: same_src_dst_def)
    with True ih show ?thesis by simp
  next
    case False
    from "3.prems" have s: "sorted_wrt (\<lambda>a b. \<not> edge_less b a) (y # ys)" by simp
    have ih: "filter (same_src_dst e) (unique_copy same_src_dst (y # ys)) = take 1 (filter (same_src_dst e) (y # ys))"
      using "3.hyps"(2)[OF False s] .
    show ?thesis
    proof (cases "same_src_dst e x")
      case True
      have "\<forall>z\<in>set (y # ys). \<not> same_src_dst e z"
      proof
        fix z assume "z \<in> set (y # ys)"
        from same_src_dst_first_group[OF "3.prems" False this] True
        show "\<not> same_src_dst e z" by (auto simp: same_src_dst_def)
      qed
      then have "filter (same_src_dst e) (y # ys) = []" by (simp only: filter_empty_conv) 
      with ih False True show ?thesis by simp
    next
      case False
      with ih \<open>\<not> same_src_dst x y\<close> show ?thesis by simp
    qed
  qed
qed

lemma sorted_group_head_newest:
  assumes "sorted_wrt (\<lambda>a b. \<not> edge_less b a) (x # xs)" "z \<in> set xs" "same_src_dst x z"
  shows "timestamp z \<le> timestamp x"
proof -
  from assms(1,2) have "\<not> edge_less z x" by simp
  with assms(3) show ?thesis by (auto simp: same_src_dst_def edge_less_def split: if_splits)
qed

lemma dedup_group:
  assumes sp: "sort_post srt xs" and e: "e \<in> set xs"
  shows "\<exists>e'. filter (same_src_dst e) (DeduplicatedBatch srt xs) = [e'] \<and> e' \<in> set xs
           \<and> same_src_dst e e'
           \<and> (\<forall>x\<in>set xs. same_src_dst e x \<longrightarrow> timestamp x \<le> timestamp e')"
proof -
  let ?ys = "srt xs"
  let ?g = "filter (same_src_dst e) ?ys"
  from sp have m: "mset ?ys = mset xs" and s: "sorted_wrt (\<lambda>a b. \<not> edge_less b a) ?ys"
    by (simp_all add: sort_post_def)
  from m have st: "set ?ys = set xs" by (rule mset_eq_setD)
  have "same_src_dst e e" by (simp add: same_src_dst_def)
  with e st have "e \<in> set ?g" by simp
  then obtain e' g' where g: "?g = e' # g'" by (cases ?g) auto
  have sg: "sorted_wrt (\<lambda>a b. \<not> edge_less b a) ?g" using s by (rule sorted_wrt_filter)
  have e'in: "e' \<in> set ?g" using g by simp
  then have e'xs: "e' \<in> set xs" and ee': "same_src_dst e e'" using st by auto
  have "\<forall>x\<in>set xs. same_src_dst e x \<longrightarrow> timestamp x \<le> timestamp e'"
  proof (intro ballI impI)
    fix x assume "x \<in> set xs" "same_src_dst e x"
    then have "x \<in> set ?g" using st by simp
    then have "x = e' \<or> x \<in> set g'" using g by simp
    then show "timestamp x \<le> timestamp e'"
    proof
      assume "x = e'" then show ?thesis by simp
    next
      assume xg: "x \<in> set g'"
      from ee' \<open>same_src_dst e x\<close> have "same_src_dst e' x" by (auto simp: same_src_dst_def)
      from sorted_group_head_newest[OF sg[unfolded g] xg this] show ?thesis .
    qed
  qed
  moreover have "filter (same_src_dst e) (DeduplicatedBatch srt xs) = [e']"
    using filter_unique_copy_sorted[OF s, of e] g by (simp add: DeduplicatedBatch_def)
  ultimately show ?thesis using e'xs ee' by blast
qed


lemma dedup_group_newest:
  assumes "sort_post srt batch" and "e \<in> set batch"
  shows "\<exists>e'. filter (\<lambda>x. src x = src e \<and> dst x = dst e) (DeduplicatedBatch srt batch) = [e']
           \<and> e' \<in> set batch
           \<and> (\<forall>x\<in>set batch. src x = src e \<and> dst x = dst e \<longrightarrow> timestamp x \<le> timestamp e')
           \<and> ((\<forall>x\<in>set batch. src x = src e \<and> dst x = dst e \<and> x \<noteq> e \<longrightarrow> timestamp x < timestamp e)
                \<longrightarrow> e' = e)"
proof -
  have f: "(\<lambda>x. src x = src e \<and> dst x = dst e) = same_src_dst e"
    by (auto simp: same_src_dst_def fun_eq_iff)
  from dedup_group[OF assms] obtain e' where
    1: "filter (same_src_dst e) (DeduplicatedBatch srt batch) = [e']" and 2: "e' \<in> set batch"
    and 3: "same_src_dst e e'"
    and 4: "\<forall>x\<in>set batch. same_src_dst e x \<longrightarrow> timestamp x \<le> timestamp e'" by blast
  have "same_src_dst e e" by (simp add: same_src_dst_def)
  with 4 assms(2) have 5: "timestamp e \<le> timestamp e'" by blast
  have "(\<forall>x\<in>set batch. src x = src e \<and> dst x = dst e \<and> x \<noteq> e \<longrightarrow> timestamp x < timestamp e)
                \<longrightarrow> e' = e"
  proof
    assume a: "\<forall>x\<in>set batch. src x = src e \<and> dst x = dst e \<and> x \<noteq> e \<longrightarrow> timestamp x < timestamp e"
    show "e' = e"
    proof (rule ccontr)
      assume "e' \<noteq> e"
      with a 2 3 have "timestamp e' < timestamp e" by (auto simp: same_src_dst_def)
      with 5 show False by simp
    qed
  qed
  moreover from 1 have "filter (\<lambda>x. src x = src e \<and> dst x = dst e) (DeduplicatedBatch srt batch) = [e']"
    by (simp only: f)
  moreover from 4 have "\<forall>x\<in>set batch. src x = src e \<and> dst x = dst e \<longrightarrow> timestamp x \<le> timestamp e'"
    by (simp add: same_src_dst_def)
  ultimately show ?thesis using 2 by blast
qed

text \<open>
  Claim C1. Whenever a batch holds an edge with a given source and destination, its
  deduplicated view holds exactly one edge with that source and destination; that edge is
  an edge of the batch, unchanged in all four fields (so with its own weight, and nothing
  of the discarded duplicates merged in), and no edge of the batch with that source and
  destination has a later timestamp. When one edge of the group is strictly the newest,
  it is the survivor. This holds for every result \<^verbatim>\<open>std::sort\<close> may return.
\<close>

theorem dedup_keeps_newest_edge:
  assumes "sort_post srt batch" and "e \<in> set batch"
  shows "\<exists>e'. filter (\<lambda>x. src x = src e \<and> dst x = dst e) (DeduplicatedBatch srt batch) = [e']
           \<and> e' \<in> set batch
           \<and> (\<forall>x\<in>set batch. src x = src e \<and> dst x = dst e \<longrightarrow> timestamp x \<le> timestamp e')
           \<and> ((\<forall>x\<in>set batch. src x = src e \<and> dst x = dst e \<and> x \<noteq> e \<longrightarrow> timestamp x < timestamp e)
                \<longrightarrow> e' = e)"
  using assms by (rule dedup_group_newest)

theorem dedup_keeps_newest_edge_witness:
  "sort_post edge_sort [\<lparr>src = 1, dst = 2, weight = 5, timestamp = 10\<rparr>, \<lparr>src = 1, dst = 2, weight = 7, timestamp = 20\<rparr>]
   \<and> \<lparr>src = 1, dst = 2, weight = 7, timestamp = 20\<rparr> \<in> set [\<lparr>src = 1, dst = 2, weight = 5, timestamp = 10\<rparr>, \<lparr>src = 1, dst = 2, weight = 7, timestamp = 20\<rparr>]
   \<and> DeduplicatedBatch edge_sort [\<lparr>src = 1, dst = 2, weight = 5, timestamp = 10\<rparr>, \<lparr>src = 1, dst = 2, weight = 7, timestamp = 20\<rparr>]
       = [\<lparr>src = 1, dst = 2, weight = 7, timestamp = 20\<rparr>]"
  using dedup_keeps_newest_edge[of edge_sort "[\<lparr>src = 1, dst = 2, weight = 5, timestamp = 10\<rparr>, \<lparr>src = 1, dst = 2, weight = 7, timestamp = 20\<rparr>]"
       "\<lparr>src = 1, dst = 2, weight = 7, timestamp = 20\<rparr>"]
  by (simp add: sort_post_def DeduplicatedBatch_def edge_less_def same_src_dst_def)

text \<open>
  The example of the specification: two edges from 1 to 2 in one batch, the second newer,
  collapse to the second one alone.
\<close>

lemma dedup_pair:
  assumes "sort_post srt [\<lparr>src = s, dst = d, weight = w1, timestamp = t1\<rparr>, \<lparr>src = s, dst = d, weight = w2, timestamp = t2\<rparr>]"
    and "t1 < t2"
  shows "DeduplicatedBatch srt [\<lparr>src = s, dst = d, weight = w1, timestamp = t1\<rparr>, \<lparr>src = s, dst = d, weight = w2, timestamp = t2\<rparr>]
         = [\<lparr>src = s, dst = d, weight = w2, timestamp = t2\<rparr>]"
proof -
  let ?a = "\<lparr>src = s, dst = d, weight = w1, timestamp = t1\<rparr>"
  let ?b = "\<lparr>src = s, dst = d, weight = w2, timestamp = t2\<rparr>"
  let ?D = "DeduplicatedBatch srt [?a, ?b]"
  from assms(1) have "set (srt [?a, ?b]) = set [?a, ?b]"
    unfolding sort_post_def by (metis mset_eq_setD)
  then have sub: "set ?D \<subseteq> {?a, ?b}"
    using set_unique_copy_subset[of same_src_dst "srt [?a, ?b]"] by (simp add: DeduplicatedBatch_def)
  have "\<forall>x\<in>set ?D. src x = src ?b \<and> dst x = dst ?b" using sub by auto
  then have all: "filter (\<lambda>x. src x = src ?b \<and> dst x = dst ?b) ?D = ?D" by (simp only: filter_id_conv)
  from dedup_group_newest[OF assms(1), of ?b] assms(2) obtain e' where
    "filter (\<lambda>x. src x = src ?b \<and> dst x = dst ?b) ?D = [e']" and "e' = ?b" by auto
  with all show ?thesis by simp
qed

lemma distinct_remdups_adj_sorted: "sorted xs \<Longrightarrow> distinct (remdups_adj xs)"
proof (induction xs rule: remdups_adj.induct)
  case (3 x y xs)
  then show ?case by (cases "x = y") auto
qed simp_all

lemma unique_copy_keeps_group:
  "\<forall>x\<in>set ys. \<exists>x'\<in>set (unique_copy same_src_dst ys). same_src_dst x' x"
proof (induction same_src_dst ys rule: unique_copy.induct)
  case 1
  then show ?case by simp
next
  case (2 y)
  then show ?case by (simp add: same_src_dst_def)
next
  case (3 a b ys)
  show ?case
  proof (cases "same_src_dst a b")
    case True
    from "3.hyps"(1)[OF True]
    have ih: "\<forall>x\<in>set (a # ys). \<exists>x'\<in>set (unique_copy same_src_dst (a # ys)). same_src_dst x' x" .
    then obtain a' where a': "a' \<in> set (unique_copy same_src_dst (a # ys))" "same_src_dst a' a"
      by auto
    with True have "same_src_dst a' b" by (simp add: same_src_dst_def)
    with a' ih True show ?thesis by auto
  next
    case False
    from "3.hyps"(2)[OF False]
    have ih: "\<forall>x\<in>set (b # ys). \<exists>x'\<in>set (unique_copy same_src_dst (b # ys)). same_src_dst x' x" .
    have "same_src_dst a a" by (simp add: same_src_dst_def)
    with ih False show ?thesis by auto
  qed
qed

lemma endpoints_DeduplicatedBatch:
  assumes "sort_post srt batch"
  shows "src ` set (DeduplicatedBatch srt batch) = src ` set batch"
    and "dst ` set (DeduplicatedBatch srt batch) = dst ` set batch"
proof -
  from assms have st: "set (srt batch) = set batch"
    unfolding sort_post_def by (metis mset_eq_setD)
  have sub: "set (DeduplicatedBatch srt batch) \<subseteq> set batch"
    using set_unique_copy_subset[of same_src_dst "srt batch"] st
    by (simp add: DeduplicatedBatch_def)
  have grp: "\<forall>x\<in>set batch. \<exists>x'\<in>set (DeduplicatedBatch srt batch). same_src_dst x' x"
    using unique_copy_keeps_group[of "srt batch"] st by (simp add: DeduplicatedBatch_def)
  show "src ` set (DeduplicatedBatch srt batch) = src ` set batch"
  proof
    show "src ` set (DeduplicatedBatch srt batch) \<subseteq> src ` set batch" using sub by auto
    show "src ` set batch \<subseteq> src ` set (DeduplicatedBatch srt batch)"
    proof
      fix v assume "v \<in> src ` set batch"
      then obtain x where "x \<in> set batch" "v = src x" by auto
      with grp obtain x' where "x' \<in> set (DeduplicatedBatch srt batch)" "same_src_dst x' x" by blast
      then have "x' \<in> set (DeduplicatedBatch srt batch)" "v = src x'"
        using \<open>v = src x\<close> by (simp_all add: same_src_dst_def)
      then show "v \<in> src ` set (DeduplicatedBatch srt batch)" by blast
    qed
  qed
  show "dst ` set (DeduplicatedBatch srt batch) = dst ` set batch"
  proof
    show "dst ` set (DeduplicatedBatch srt batch) \<subseteq> dst ` set batch" using sub by auto
    show "dst ` set batch \<subseteq> dst ` set (DeduplicatedBatch srt batch)"
    proof
      fix v assume "v \<in> dst ` set batch"
      then obtain x where "x \<in> set batch" "v = dst x" by auto
      with grp obtain x' where "x' \<in> set (DeduplicatedBatch srt batch)" "same_src_dst x' x" by blast
      then have "x' \<in> set (DeduplicatedBatch srt batch)" "v = dst x'"
        using \<open>v = dst x\<close> by (simp_all add: same_src_dst_def)
      then show "v \<in> dst ` set (DeduplicatedBatch srt batch)" by blast
    qed
  qed
qed

lemma Dedup_num_vertices_affected_card:
  "Dedup_num_vertices_affected d = int (card (src ` set d \<union> dst ` set d))"
proof -
  let ?vs = "map src d @ map dst d"
  have "distinct (remdups_adj (sort ?vs))" by (rule distinct_remdups_adj_sorted) simp
  then have "length (remdups_adj (sort ?vs)) = card (set (remdups_adj (sort ?vs)))"
    by (rule distinct_card[symmetric])
  also have "\<dots> = card (src ` set d \<union> dst ` set d)" by simp
  finally show ?thesis
    by (simp add: Dedup_num_vertices_affected_def unique_copy_eq_remdups_adj)
qed

text \<open>
  Claim C10. \<^verbatim>\<open>num_vertices_affected\<close> of a deduplicated batch is the number of
  distinct vertex ids among the sources and destinations of its edges; on a plain batch
  it is the number of distinct endpoint ids of the batch itself, and it equals the count
  of the deduplicated view of that batch.
\<close>

theorem num_vertices_affected_counts_endpoints:
  "Dedup_num_vertices_affected d = int (card (src ` set d \<union> dst ` set d))
   \<and> (sort_post srt batch \<longrightarrow>
        Batch_num_vertices_affected srt batch = int (card (src ` set batch \<union> dst ` set batch))
      \<and> Dedup_num_vertices_affected (DeduplicatedBatch srt batch)
          = Batch_num_vertices_affected srt batch
      \<and> src ` set (DeduplicatedBatch srt batch) \<union> dst ` set (DeduplicatedBatch srt batch)
          = src ` set batch \<union> dst ` set batch)"
  using endpoints_DeduplicatedBatch[of srt batch]
  by (simp add: Dedup_num_vertices_affected_card Batch_num_vertices_affected_def)

theorem num_vertices_affected_counts_endpoints_witness:
  "sort_post edge_sort [\<lparr>src = 1, dst = 2, weight = 1, timestamp = 0\<rparr>, \<lparr>src = 1, dst = 3, weight = 1, timestamp = 1\<rparr>,
       \<lparr>src = 1, dst = 2, weight = 5, timestamp = 2\<rparr>, \<lparr>src = 2, dst = 3, weight = 1, timestamp = 3\<rparr>]
   \<and> Batch_num_vertices_affected edge_sort [\<lparr>src = 1, dst = 2, weight = 1, timestamp = 0\<rparr>, \<lparr>src = 1, dst = 3, weight = 1, timestamp = 1\<rparr>,
       \<lparr>src = 1, dst = 2, weight = 5, timestamp = 2\<rparr>, \<lparr>src = 2, dst = 3, weight = 1, timestamp = 3\<rparr>] = 3"
  using num_vertices_affected_counts_endpoints[of "[]" edge_sort "[\<lparr>src = 1, dst = 2, weight = 1, timestamp = 0\<rparr>, \<lparr>src = 1, dst = 3, weight = 1, timestamp = 1\<rparr>,
       \<lparr>src = 1, dst = 2, weight = 5, timestamp = 2\<rparr>, \<lparr>src = 2, dst = 3, weight = 1, timestamp = 3\<rparr>]"]
  by (simp add: sort_post_edge_sort card_insert_if)

section \<open>The constructor of the edge-list dataset\<close>

lemma is_sorted_timestamp:
  "is_sorted (\<lambda>x y. timestamp x < timestamp y) (es :: Edge list) = sorted (map timestamp es)"
  by (induction "\<lambda>(x::Edge) (y::Edge). timestamp x < timestamp y" es rule: is_sorted.induct) auto

lemma find_self_edge:
  "(find (\<lambda>e. src e = dst e) (es :: Edge list) = None) = (\<forall>e\<in>set es. src e \<noteq> dst e)"
  by (auto simp: find_None_iff)

lemma to_size_t_pos: "1 \<le> x \<Longrightarrow> x < 2 ^ 63 \<Longrightarrow> to_size_t x = nat x"
  by (simp add: to_size_t_def)

lemma EdgeListDataset_init_Inr:
  assumes "EdgeListDataset_init args es = Inr ds"
  shows "to_size_t (batch_size args) \<noteq> 0"
    and "to_size_t (batch_size args) \<le> length es"
    and "num_epochs args \<le> int (length es div to_size_t (batch_size args))"
    and "is_sorted (\<lambda>x y. timestamp x < timestamp y) es"
    and "find (\<lambda>e. src e = dst e) es = None"
    and "edges ds = es"
    and "ds_args ds = args"
    and "batches ds = make_batches (length es div to_size_t (batch_size args)) (to_size_t (batch_size args))"
    and "min_timestamp ds = timestamp (hd es)"
    and "max_timestamp ds = timestamp (last es)"
  using assms
  by (auto simp: EdgeListDataset_init_def Let_def split: if_splits)

lemma ex_init: "EdgeListDataset_init ex_args ex_edges = Inr ex_dataset"
  by (simp add: EdgeListDataset_init_def ex_args_def ex_edges_def ex_dataset_def to_size_t_def
      make_batches_def upt_conv_Cons Let_def)

lemma nth_make_batches:
  "i < n \<Longrightarrow> make_batches n bs ! i = \<lparr>begin_iter = i * bs, end_iter = i * bs + bs\<rparr>"
  by (simp add: make_batches_def)

lemma length_make_batches: "length (make_batches n bs) = n"
  by (simp add: make_batches_def)

lemma batch_within:
  assumes "i < n div bs" shows "i * bs + bs \<le> (n::nat)"
proof -
  from assms have "Suc i \<le> n div bs" by simp
  then have "Suc i * bs \<le> (n div bs) * bs" by (rule mult_le_mono1)
  also have "\<dots> \<le> n" by simp
  finally show ?thesis by (simp add: add.commute)
qed

lemma concat_make_batches:
  "n * bs \<le> length es \<Longrightarrow>
   concat (map (batch_edges es) (make_batches n bs)) = take (n * bs) es"
proof (induction n)
  case 0
  then show ?case by (simp add: make_batches_def)
next
  case (Suc n)
  then have ih: "concat (map (batch_edges es) (make_batches n bs)) = take (n * bs) es"
    by simp
  have "make_batches (Suc n) bs = make_batches n bs @ [\<lparr>begin_iter = n * bs, end_iter = n * bs + bs\<rparr>]"
    by (simp add: make_batches_def)
  then have "concat (map (batch_edges es) (make_batches (Suc n) bs))
      = take (n * bs) es @ take bs (drop (n * bs) es)"
    using ih by (simp add: batch_edges_def)
  also have "\<dots> = take (n * bs + bs) es" by (simp add: take_add)
  finally show ?case by (simp add: add.commute)
qed


lemma batches_partition:
  assumes ok: "EdgeListDataset_init args es = Inr ds"
    and bs: "1 \<le> batch_size args" "batch_size args < 2 ^ 63"
  shows "int (length (batches ds)) = int (length es) div batch_size args
    \<and> (\<forall>i < length (batches ds).
          begin_iter (batches ds ! i) = i * nat (batch_size args)
        \<and> end_iter (batches ds ! i) = (i + 1) * nat (batch_size args)
        \<and> end_iter (batches ds ! i) \<le> length es - length es mod nat (batch_size args)
        \<and> batch_edges (edges ds) (batches ds ! i)
            = take (nat (batch_size args)) (drop (i * nat (batch_size args)) es)
        \<and> length (batch_edges (edges ds) (batches ds ! i)) = nat (batch_size args)
        \<and> (\<forall>j < length (batches ds). i < j \<longrightarrow>
              end_iter (batches ds ! i) \<le> begin_iter (batches ds ! j)))
    \<and> concat (map (batch_edges (edges ds)) (batches ds))
        = take (length es - length es mod nat (batch_size args)) es"
proof -
  let ?bs = "nat (batch_size args)"
  let ?nb = "length es div ?bs"
  have t: "to_size_t (batch_size args) = ?bs" using bs by (rule to_size_t_pos)
  have b: "batches ds = make_batches ?nb ?bs" and e: "edges ds = es"
    using EdgeListDataset_init_Inr(8,6)[OF ok] by (simp_all add: t)
  have len: "length (batches ds) = ?nb" by (simp add: b length_make_batches)
  have cover: "?nb * ?bs = length es - length es mod ?bs"
    by (simp add: minus_mod_eq_div_mult)
  have 1: "int (length (batches ds)) = int (length es) div batch_size args"
    using bs by (simp add: len zdiv_int)
  have 2: "begin_iter (batches ds ! i) = i * ?bs
        \<and> end_iter (batches ds ! i) = (i + 1) * ?bs
        \<and> end_iter (batches ds ! i) \<le> length es - length es mod ?bs
        \<and> batch_edges (edges ds) (batches ds ! i) = take ?bs (drop (i * ?bs) es)
        \<and> length (batch_edges (edges ds) (batches ds ! i)) = ?bs
        \<and> (\<forall>j < length (batches ds). i < j \<longrightarrow>
              end_iter (batches ds ! i) \<le> begin_iter (batches ds ! j))"
    if "i < length (batches ds)" for i
  proof -
    from that have i: "i < ?nb" by (simp add: len)
    then have w: "i * ?bs + ?bs \<le> length es" by (rule batch_within)
    have n: "batches ds ! i = \<lparr>begin_iter = i * ?bs, end_iter = i * ?bs + ?bs\<rparr>"
      using i by (simp add: b nth_make_batches)
    from i have "Suc i \<le> ?nb" by simp
    then have "Suc i * ?bs \<le> ?nb * ?bs" by (rule mult_le_mono1)
    then have w': "i * ?bs + ?bs \<le> length es - length es mod ?bs"
      by (simp add: cover add.commute)
    have disj: "end_iter (batches ds ! i) \<le> begin_iter (batches ds ! j)"
      if "j < length (batches ds)" "i < j" for j
    proof -
      from that have j: "j < ?nb" by (simp add: len)
      from that have "Suc i \<le> j" by simp
      then have "Suc i * ?bs \<le> j * ?bs" by (rule mult_le_mono1)
      moreover have "batches ds ! j = \<lparr>begin_iter = j * ?bs, end_iter = j * ?bs + ?bs\<rparr>"
        using j by (simp add: b nth_make_batches)
      ultimately show ?thesis by (simp add: n add.commute)
    qed
    show ?thesis using w w' disj by (simp add: n e batch_edges_def)
  qed
  have "?nb * ?bs \<le> length es" by simp
  then have "concat (map (batch_edges es) (make_batches ?nb ?bs)) = take (?nb * ?bs) es"
    by (rule concat_make_batches)
  then have 3: "concat (map (batch_edges (edges ds)) (batches ds))
        = take (length es - length es mod ?bs) es" by (simp add: b e cover)
  from 1 2 3 show ?thesis by blast
qed

lemma EdgeListDataset_init_total:
  assumes bs: "1 \<le> batch_size args" "batch_size args < 2 ^ 63"
    and fits: "nat (batch_size args) \<le> length es"
    and epochs: "num_epochs args \<le> int (length es) div batch_size args"
    and sorted: "sorted (map timestamp es)"
    and no_self: "\<forall>e\<in>set es. src e \<noteq> dst e"
    and counter: "int (length es) div batch_size args \<le> 2 ^ 31 - 1"
  shows "\<exists>ds. EdgeListDataset_init args es = Inr ds \<and> edges ds = es"
proof -
  have t: "to_size_t (batch_size args) = nat (batch_size args)" using bs by (rule to_size_t_pos)
  have n: "int (length es div nat (batch_size args)) = int (length es) div batch_size args"
    using bs(1) by (simp add: zdiv_int)
  have s: "is_sorted (\<lambda>x y. timestamp x < timestamp y) es"
    using sorted by (simp only: is_sorted_timestamp)
  have f: "find (\<lambda>e. src e = dst e) es = None"
    using no_self by (simp only: find_self_edge)
  have p: "nat (batch_size args) \<noteq> 0" using bs(1) by simp
  show ?thesis
    unfolding EdgeListDataset_init_def t n Let_def
    using p fits epochs s f counter by simp
qed

text \<open>
  Claim C3. Take an edge list \<open>es\<close> that the constructor accepts: sorted by timestamp,
  without self-edges, with \<open>1 \<le> batch_size \<le> length es\<close>, no more epochs than
  \<open>length es div batch_size\<close>, and a number of batches an \<^verbatim>\<open>int\<close> can count. Then
  the constructor returns a dataset over these edges. Every dataset the constructor
  returns has exactly \<open>length es div batch_size\<close> batches; batch \<open>i\<close> starts at
  position \<open>i * batch_size\<close> and ends before position \<open>(i + 1) * batch_size\<close>, so it
  holds exactly \<open>batch_size\<close> edges; a batch ends where the next one begins, so
  batches do not overlap; together, in order, they are the edge list without its last
  \<open>length es mod batch_size\<close> edges, which no batch reaches.
\<close>

theorem batches_partition_edges:
  assumes bs: "1 \<le> batch_size args" "batch_size args < 2 ^ 63"
  shows "(nat (batch_size args) \<le> length es
          \<and> num_epochs args \<le> int (length es) div batch_size args
          \<and> sorted (map timestamp es) \<and> (\<forall>e\<in>set es. src e \<noteq> dst e)
          \<and> int (length es) div batch_size args \<le> 2 ^ 31 - 1
        \<longrightarrow> (\<exists>ds. EdgeListDataset_init args es = Inr ds \<and> edges ds = es))
    \<and> (EdgeListDataset_init args es = Inr ds \<longrightarrow>
        int (length (batches ds)) = int (length es) div batch_size args
      \<and> (\<forall>i < length (batches ds).
            begin_iter (batches ds ! i) = i * nat (batch_size args)
          \<and> end_iter (batches ds ! i) = (i + 1) * nat (batch_size args)
          \<and> end_iter (batches ds ! i) \<le> length es - length es mod nat (batch_size args)
          \<and> batch_edges (edges ds) (batches ds ! i)
              = take (nat (batch_size args)) (drop (i * nat (batch_size args)) es)
          \<and> length (batch_edges (edges ds) (batches ds ! i)) = nat (batch_size args)
          \<and> (\<forall>j < length (batches ds). i < j \<longrightarrow>
                end_iter (batches ds ! i) \<le> begin_iter (batches ds ! j)))
      \<and> concat (map (batch_edges (edges ds)) (batches ds))
          = take (length es - length es mod nat (batch_size args)) es)"
proof (intro conjI impI)
  assume "nat (batch_size args) \<le> length es
          \<and> num_epochs args \<le> int (length es) div batch_size args
          \<and> sorted (map timestamp es) \<and> (\<forall>e\<in>set es. src e \<noteq> dst e)
          \<and> int (length es) div batch_size args \<le> 2 ^ 31 - 1"
  then show "\<exists>ds. EdgeListDataset_init args es = Inr ds \<and> edges ds = es"
    using EdgeListDataset_init_total[OF bs, of es] by blast
next
  assume ok: "EdgeListDataset_init args es = Inr ds"
  from batches_partition[OF ok bs]
  show "int (length (batches ds)) = int (length es) div batch_size args" by (rule conjunct1)
  from batches_partition[OF ok bs]
  show "\<forall>i < length (batches ds).
            begin_iter (batches ds ! i) = i * nat (batch_size args)
          \<and> end_iter (batches ds ! i) = (i + 1) * nat (batch_size args)
          \<and> end_iter (batches ds ! i) \<le> length es - length es mod nat (batch_size args)
          \<and> batch_edges (edges ds) (batches ds ! i)
              = take (nat (batch_size args)) (drop (i * nat (batch_size args)) es)
          \<and> length (batch_edges (edges ds) (batches ds ! i)) = nat (batch_size args)
          \<and> (\<forall>j < length (batches ds). i < j \<longrightarrow>
                end_iter (batches ds ! i) \<le> begin_iter (batches ds ! j))"
    by (elim conjE) assumption
  from batches_partition[OF ok bs]
  show "concat (map (batch_edges (edges ds)) (batches ds))
          = take (length es - length es mod nat (batch_size args)) es"
    by (elim conjE) assumption
qed

theorem batches_partition_edges_witness:
  "1 \<le> batch_size ex_args \<and> batch_size ex_args < 2 ^ 63
   \<and> nat (batch_size ex_args) \<le> length ex_edges
   \<and> num_epochs ex_args \<le> int (length ex_edges) div batch_size ex_args
   \<and> sorted (map timestamp ex_edges)
   \<and> find (\<lambda>e. src e = dst e) ex_edges = None
   \<and> int (length ex_edges) div batch_size ex_args \<le> 2 ^ 31 - 1
   \<and> (\<exists>ds. EdgeListDataset_init ex_args ex_edges = Inr ds \<and> edges ds = ex_edges)
   \<and> EdgeListDataset_init ex_args ex_edges = Inr ex_dataset
   \<and> length (batches ex_dataset) = 2
   \<and> concat (map (batch_edges (edges ex_dataset)) (batches ex_dataset)) = take 4 ex_edges"
  using batches_partition_edges[of ex_args ex_edges ex_dataset] ex_init
  by (simp add: ex_args_def ex_edges_def ex_dataset_def batch_edges_def)


lemma EdgeListDataset_init_error:
  assumes "1 \<le> batch_size args" "batch_size args < 2 ^ 63"
    and "\<not> sorted (map timestamp es) \<or> (\<exists>e\<in>set es. src e = dst e)"
  shows "EdgeListDataset_init args es \<in>
           {Inl (Batch_size_too_large (batch_size args) (length es)),
            Inl (Too_many_epochs (num_epochs args) (int (length es) div batch_size args)),
            Inl Edges_not_sorted, Inl Self_edges}"
proof -
  have t: "to_size_t (batch_size args) = nat (batch_size args)"
    using assms(1,2) by (rule to_size_t_pos)
  have n: "int (length es div nat (batch_size args)) = int (length es) div batch_size args"
    using assms(1) by (simp add: zdiv_int)
  from assms(3) have "\<not> is_sorted (\<lambda>x y. timestamp x < timestamp y) es
      \<or> find (\<lambda>e. src e = dst e) es \<noteq> None"
    by (simp only: is_sorted_timestamp find_self_edge) blast
  then show ?thesis
    using assms(1) unfolding EdgeListDataset_init_def t n Let_def by auto
qed

text \<open>
  Claim C5. The constructor returns a dataset only when the timestamps of the edges are
  non-decreasing and no edge has equal source and destination. An edge list that violates
  either condition is never accepted: with a batch size that passed the validation of the
  configuration, the constructor ends in one of its four calls of \<^verbatim>\<open>die()\<close>.
\<close>

theorem construction_rejects_unsorted_and_self_edges:
  "(EdgeListDataset_init args es = Inr ds \<longrightarrow>
      sorted (map timestamp es) \<and> (\<forall>e\<in>set es. src e \<noteq> dst e))
   \<and> (\<not> sorted (map timestamp es) \<or> (\<exists>e\<in>set es. src e = dst e) \<longrightarrow>
        (\<exists>err. EdgeListDataset_init args es = Inl err)
      \<and> (1 \<le> batch_size args \<and> batch_size args < 2 ^ 63 \<longrightarrow>
           EdgeListDataset_init args es \<in>
             {Inl (Batch_size_too_large (batch_size args) (length es)),
              Inl (Too_many_epochs (num_epochs args) (int (length es) div batch_size args)),
              Inl Edges_not_sorted, Inl Self_edges}))"
proof -
  have 1: "EdgeListDataset_init args es = Inr ds \<longrightarrow>
      sorted (map timestamp es) \<and> (\<forall>e\<in>set es. src e \<noteq> dst e)" for ds
    using EdgeListDataset_init_Inr(4,5)[of args es ds]
    by (simp add: is_sorted_timestamp find_self_edge)
  have 2: "\<exists>err. EdgeListDataset_init args es = Inl err"
    if v: "\<not> sorted (map timestamp es) \<or> (\<exists>e\<in>set es. src e = dst e)"
  proof (cases "EdgeListDataset_init args es")
    case (Inl err)
    then show ?thesis by simp
  next
    case (Inr ds')
    with 1[of ds'] v show ?thesis by blast
  qed
  from 1 2 EdgeListDataset_init_error[of args es] show ?thesis by blast
qed

theorem construction_rejects_unsorted_and_self_edges_witness:
  "EdgeListDataset_init ex_args ex_edges = Inr ex_dataset
   \<and> sorted (map timestamp ex_edges)
   \<and> find (\<lambda>e. src e = dst e) ex_edges = None
   \<and> \<not> sorted (map timestamp (rev ex_edges))
   \<and> EdgeListDataset_init ex_args (rev ex_edges) = Inl Edges_not_sorted"
  using construction_rejects_unsorted_and_self_edges[of ex_args ex_edges ex_dataset]
    construction_rejects_unsorted_and_self_edges[of ex_args "rev ex_edges" ex_dataset] ex_init
  by (simp add: find_self_edge)
     (simp add: ex_edges_def ex_args_def EdgeListDataset_init_def to_size_t_def Let_def)

section \<open>Loading a binary edge file\<close>

lemma length_fread: "length (fread bytes n) = min n (length bytes div 32)"
proof (induction n arbitrary: bytes)
  case 0
  then show ?case by simp
next
  case (Suc n)
  show ?case
  proof (cases "length bytes < 32")
    case True
    then show ?thesis by simp
  next
    case False
    then have "length bytes div 32 = Suc ((length bytes - 32) div 32)"
      by (simp add: le_div_geq)
    with False Suc show ?thesis by simp
  qed
qed

lemma fread_records:
  "n \<le> length bytes div 32 \<Longrightarrow>
   fread bytes n = map (\<lambda>i. decode_edge (take 32 (drop (32 * i) bytes))) [0..<n]"
proof (induction n arbitrary: bytes)
  case 0
  then show ?case by simp
next
  case (Suc n)
  then have l: "32 \<le> length bytes" by simp
  then have "length bytes div 32 = Suc ((length bytes - 32) div 32)"
    by (simp add: le_div_geq)
  with Suc.prems have "n \<le> length (drop 32 bytes) div 32" by simp
  then have ih: "fread (drop 32 bytes) n
      = map (\<lambda>i. decode_edge (take 32 (drop (32 * i) (drop 32 bytes)))) [0..<n]"
    by (rule Suc.IH)
  have "map (\<lambda>i. decode_edge (take 32 (drop (32 * i) bytes))) [0..<Suc n]
      = decode_edge (take 32 (drop (32 * 0) bytes))
        # map (\<lambda>i. decode_edge (take 32 (drop (32 * Suc i) bytes))) [0..<n]"
    by (rule map_upt_Suc)
  also have "\<dots> = decode_edge (take 32 bytes) # fread (drop 32 bytes) n"
    by (simp add: ih add.commute)
  finally show ?case using l by simp
qed

text \<open>
  Claim C7, as stated, fails: a regular file of 33 bytes, one record and one byte more,
  is loaded as one edge and no error is raised.
\<close>

theorem missized_binary_file_is_loaded:
  "missized_fs ''g.graph.bin'' = Some \<lparr>st_size = 33, fopen = Some (one_edge_bytes @ [7])\<rparr>
   \<and> length (one_edge_bytes @ [7]) = 33
   \<and> 33 mod 32 = (1::nat)
   \<and> loadEdgesBinary missized_fs ''g.graph.bin''
       = Inr [\<lparr>src = 1, dst = 2, weight = 1, timestamp = 0\<rparr>]"
  by code_simp

text \<open>
  Claim C7, amended. A size that is not a multiple of 32 is not an error. Loading a
  regular file that can be read (the stream holds the bytes \<^verbatim>\<open>stat\<close> counted) and holds
  at least one record succeeds whatever the remainder of its size: the edges loaded are
  the complete records of the file in order, their number is the size divided by 32,
  rounded down, so it is the size divided by 32 when the size is a multiple of 32, and up
  to 31 bytes at the end are ignored otherwise. The loader's own fatal errors are two: a
  path that \<^verbatim>\<open>stat\<close> does not find, and a read that stores fewer records than the size
  promised, as for a directory.
\<close>

theorem loadEdgesBinary_count:
  "(fs path = Some f \<and> fopen f = Some bytes \<and> length bytes = st_size f \<and> 32 \<le> st_size f \<longrightarrow>
      (\<exists>es. loadEdgesBinary fs path = Inr es
            \<and> es = map (\<lambda>i. decode_edge (take 32 (drop (32 * i) bytes))) [0..<st_size f div 32]
            \<and> length es = st_size f div 32
            \<and> (32 dvd st_size f \<longrightarrow> 32 * length es = st_size f)))
   \<and> (fs path = None \<longrightarrow> loadEdgesBinary fs path = Inl (Failed_to_stat path))
   \<and> (fs path = Some f \<and> fopen f = Some bytes \<and> 32 \<le> st_size f
        \<and> length bytes div 32 < st_size f div 32 \<longrightarrow>
          loadEdgesBinary fs path = Inl (Failed_to_load path))"
proof (intro conjI impI)
  assume a: "fs path = Some f \<and> fopen f = Some bytes \<and> length bytes = st_size f \<and> 32 \<le> st_size f"
  then have "32 \<le> st_size f" by simp
  then have n: "st_size f div 32 \<noteq> 0" by (simp add: div_greater_zero_iff)
  from a have r: "fread bytes (st_size f div 32)
      = map (\<lambda>i. decode_edge (take 32 (drop (32 * i) bytes))) [0..<st_size f div 32]"
    by (simp add: fread_records)
  from a n have "loadEdgesBinary fs path = Inr (fread bytes (st_size f div 32))"
    by (simp add: loadEdgesBinary_def Let_def length_fread)
  with r show "\<exists>es. loadEdgesBinary fs path = Inr es
            \<and> es = map (\<lambda>i. decode_edge (take 32 (drop (32 * i) bytes))) [0..<st_size f div 32]
            \<and> length es = st_size f div 32
            \<and> (32 dvd st_size f \<longrightarrow> 32 * length es = st_size f)"
    by simp
next
  assume "fs path = None"
  then show "loadEdgesBinary fs path = Inl (Failed_to_stat path)"
    by (simp add: loadEdgesBinary_def)
next
  assume a: "fs path = Some f \<and> fopen f = Some bytes \<and> 32 \<le> st_size f
        \<and> length bytes div 32 < st_size f div 32"
  then have "32 \<le> st_size f" by simp
  then have n: "st_size f div 32 \<noteq> 0" by (simp add: div_greater_zero_iff)
  from a n show "loadEdgesBinary fs path = Inl (Failed_to_load path)"
    by (simp add: loadEdgesBinary_def Let_def length_fread)
qed

theorem loadEdgesBinary_count_witness:
  "missized_fs ''g.graph.bin'' = Some \<lparr>st_size = 33, fopen = Some (one_edge_bytes @ [7])\<rparr>
   \<and> length (one_edge_bytes @ [7]) = 33
   \<and> (\<exists>es. loadEdgesBinary missized_fs ''g.graph.bin'' = Inr es \<and> length es = 1)
   \<and> missized_fs ''one.graph.bin'' = Some \<lparr>st_size = 32, fopen = Some one_edge_bytes\<rparr>
   \<and> length one_edge_bytes = 32
   \<and> (\<exists>es. loadEdgesBinary missized_fs ''one.graph.bin'' = Inr es \<and> 32 * length es = 32)
   \<and> missized_fs ''absent.graph.bin'' = None
   \<and> loadEdgesBinary missized_fs ''absent.graph.bin'' = Inl (Failed_to_stat ''absent.graph.bin'')
   \<and> missized_fs ''dir.graph.bin'' = Some \<lparr>st_size = 4096, fopen = Some []\<rparr>
   \<and> loadEdgesBinary missized_fs ''dir.graph.bin'' = Inl (Failed_to_load ''dir.graph.bin'')"
  using loadEdgesBinary_count[of missized_fs "''g.graph.bin''"
          "\<lparr>st_size = 33, fopen = Some (one_edge_bytes @ [7])\<rparr>" "one_edge_bytes @ [7]"]
    loadEdgesBinary_count[of missized_fs "''one.graph.bin''"
          "\<lparr>st_size = 32, fopen = Some one_edge_bytes\<rparr>" one_edge_bytes]
    loadEdgesBinary_count[of missized_fs "''absent.graph.bin''"
          "\<lparr>st_size = 0, fopen = None\<rparr>" "[]"]
    loadEdgesBinary_count[of missized_fs "''dir.graph.bin''"
          "\<lparr>st_size = 4096, fopen = Some []\<rparr>" "[]"]
  by (simp add: missized_fs_def one_edge_bytes_def)

section \<open>Validation of the configuration\<close>

text \<open>
  \<^verbatim>\<open>Args::validate\<close> reports every violated constraint, in the order of the tests, and
  \<^verbatim>\<open>Args::parse\<close> dies exactly when there is one.
\<close>

lemma Args_validate_reports_all:
  "Args_validate_items args = map entry (filter (violated args) all_constraints)
   \<and> (Args_parse_check args = Inr args \<longleftrightarrow> (\<forall>v\<in>set all_constraints. \<not> violated args v))
   \<and> ((\<exists>v\<in>set all_constraints. violated args v) \<longrightarrow>
         Args_parse_check args = Inl (Invalid_arguments (concat (Args_validate_items args))))"
  by (auto simp: Args_validate_items_def all_constraints_def Args_parse_check_def Args_validate_def
      line_def Let_def)

text \<open>
  Claim C8 does not hold of the C port. With no epochs and a batch size of zero, two
  constraints are violated; \<^verbatim>\<open>validate\<close> of \<^verbatim>\<open>dynograph_util.c\<close> prints the line for
  the first and returns, where \<^verbatim>\<open>Args::validate\<close> reports both.
\<close>

theorem validate_stops_at_first_violation:
  "validate bad_c_args = ([line ''--num-epochs must be positive''], False)
   \<and> c_num_epochs bad_c_args < 1 \<and> c_batch_size bad_c_args < 1
   \<and> dynograph_args_parse_check bad_c_args
       = Inl (Invalid_arguments
               (line ''--num-epochs must be positive'' @ ''Terminating due to invalid arguments''))
   \<and> Args_validate_items bad_args
       = [line ''--num-epochs must be positive'', line ''--batch-size must be positive'']"
  by (simp add: validate_def dynograph_args_parse_check_def bad_c_args_def bad_args_def
      Args_validate_items_def)

section \<open>Generated batches\<close>

lemma next_non_self_not_self:
  assumes "next_non_self nx g = Some ((s, t), g')" shows "s \<noteq> t"
proof -
  have "fst (fst ((s, t), g')) \<noteq> snd (fst ((s, t), g'))"
  proof (rule next_non_self.raw_induct[where P = "\<lambda>nx g y. fst (fst y) \<noteq> snd (fst y)", OF _ assms])
    fix rec :: "'a next_edge \<Rightarrow> 'a \<Rightarrow> ((int \<times> int) \<times> 'a) option"
      and nx g y
    assume ih: "\<And>nx g y. rec nx g = Some y \<Longrightarrow> fst (fst y) \<noteq> snd (fst y)"
      and eq: "(case nx g of ((s, t), g') \<Rightarrow> if s = t then rec nx g' else Some ((s, t), g')) = Some y"
    obtain s1 t1 g1 where n: "nx g = ((s1, t1), g1)" by (metis prod.exhaust)
    show "fst (fst y) \<noteq> snd (fst y)"
    proof (cases "s1 = t1")
      case True
      with eq n have "rec nx g1 = Some y" by simp
      then show ?thesis by (rule ih)
    next
      case False
      with eq n show ?thesis by auto
    qed
  qed
  then show ?thesis by simp
qed

lemma RmatBatch_loop_Some:
  "RmatBatch_loop nx g n ts = Some (es, g') \<Longrightarrow>
     length es = n
   \<and> (\<forall>e\<in>set es. src e \<noteq> dst e \<and> weight e = 1)
   \<and> (\<forall>i<n. timestamp (es ! i) = ts + int i)"
proof (induction n arbitrary: g ts es)
  case 0
  then show ?case by simp
next
  case (Suc n)
  from Suc.prems obtain s t g1 es1 where
    nn: "next_non_self nx g = Some ((s, t), g1)"
    and rest: "RmatBatch_loop nx g1 n (ts + 1) = Some (es1, g')"
    and es: "es = \<lparr>src = s, dst = t, weight = 1, timestamp = ts\<rparr> # es1"
    by (auto split: option.splits prod.splits)
  from Suc.IH[OF rest] have ih: "length es1 = n"
    "\<forall>e\<in>set es1. src e \<noteq> dst e \<and> weight e = 1"
    "\<forall>i<n. timestamp (es1 ! i) = ts + 1 + int i" by simp_all
  from nn have st: "s \<noteq> t" by (rule next_non_self_not_self)
  have "timestamp (es ! i) = ts + int i" if "i < Suc n" for i
  proof (cases i)
    case 0
    then show ?thesis by (simp add: es)
  next
    case (Suc k)
    with that ih(3) show ?thesis by (simp add: es)
  qed
  with ih st show ?case by (simp add: es)
qed

lemma draws_add: "draws nx g (j + k) = draws nx g j @ draws nx (skip nx j g) k"
  by (induction j arbitrary: g) simp_all

lemma skip_add: "skip nx (j + k) g = skip nx k (skip nx j g)"
  by (induction j arbitrary: g) simp_all

lemma next_non_self_draws:
  assumes "next_non_self nx g = Some (p, g')"
  shows "\<exists>k. g' = skip nx (Suc k) g \<and> filter not_self (draws nx g (Suc k)) = [p]
            \<and> last (draws nx g (Suc k)) = p"
proof -
  have "\<exists>k. snd (p, g') = skip nx (Suc k) g \<and> filter not_self (draws nx g (Suc k)) = [fst (p, g')]
            \<and> last (draws nx g (Suc k)) = fst (p, g')"
  proof (rule next_non_self.raw_induct[where P = "\<lambda>nx g y. \<exists>k. snd y = skip nx (Suc k) g
            \<and> filter not_self (draws nx g (Suc k)) = [fst y]
            \<and> last (draws nx g (Suc k)) = fst y", OF _ assms])
    fix rec :: "'a next_edge \<Rightarrow> 'a \<Rightarrow> ((int \<times> int) \<times> 'a) option"
      and nx g y
    assume ih: "\<And>nx g y. rec nx g = Some y \<Longrightarrow> \<exists>k. snd y = skip nx (Suc k) g
            \<and> filter not_self (draws nx g (Suc k)) = [fst y]
            \<and> last (draws nx g (Suc k)) = fst y"
      and eq: "(case nx g of ((s, t), g') \<Rightarrow> if s = t then rec nx g' else Some ((s, t), g')) = Some y"
    obtain s1 t1 g1 where n: "nx g = ((s1, t1), g1)" by (metis prod.exhaust)
    show "\<exists>k. snd y = skip nx (Suc k) g \<and> filter not_self (draws nx g (Suc k)) = [fst y]
            \<and> last (draws nx g (Suc k)) = fst y"
    proof (cases "s1 = t1")
      case True
      with eq n have "rec nx g1 = Some y" by simp
      from ih[OF this] obtain k where k: "snd y = skip nx (Suc k) g1"
        "filter not_self (draws nx g1 (Suc k)) = [fst y]"
        "last (draws nx g1 (Suc k)) = fst y" by blast
      have "snd y = skip nx (Suc (Suc k)) g" using k(1) n by simp
      moreover have "filter not_self (draws nx g (Suc (Suc k))) = [fst y]"
        using k(2) n True by (simp add: not_self_def)
      moreover have "last (draws nx g (Suc (Suc k))) = fst y"
        using k(3) n by simp
      ultimately show ?thesis by blast
    next
      case False
      with eq n have y: "y = ((s1, t1), g1)" by auto
      have "snd y = skip nx (Suc 0) g" using y n by simp
      moreover have "filter not_self (draws nx g (Suc 0)) = [fst y]"
        using y n False by (simp add: not_self_def)
      moreover have "last (draws nx g (Suc 0)) = fst y" using y n by simp
      ultimately show ?thesis by blast
    qed
  qed
  then show ?thesis by simp
qed

lemma RmatBatch_loop_draws:
  "RmatBatch_loop nx g n ts = Some (es, g') \<Longrightarrow>
   \<exists>k. map endpoints es = filter not_self (draws nx g k) \<and> g' = skip nx k g
      \<and> ((es = [] \<and> k = 0)
          \<or> (0 < k \<and> es \<noteq> [] \<and> last (draws nx g k) = endpoints (last es)))"
proof (induction n arbitrary: g ts es)
  case 0
  then have "es = []" "g' = g" by simp_all
  then have "map endpoints es = filter not_self (draws nx g 0) \<and> g' = skip nx 0 g
      \<and> ((es = [] \<and> (0::nat) = 0)
          \<or> (0 < (0::nat) \<and> es \<noteq> [] \<and> last (draws nx g 0) = endpoints (last es)))" by simp
  then show ?case by blast
next
  case (Suc n)
  from Suc.prems obtain s t g1 es1 where
    nn: "next_non_self nx g = Some ((s, t), g1)"
    and rest: "RmatBatch_loop nx g1 n (ts + 1) = Some (es1, g')"
    and es: "es = \<lparr>src = s, dst = t, weight = 1, timestamp = ts\<rparr> # es1"
    by (auto split: option.splits prod.splits)
  from next_non_self_draws[OF nn] obtain j where j: "g1 = skip nx (Suc j) g"
    "filter not_self (draws nx g (Suc j)) = [(s, t)]" "last (draws nx g (Suc j)) = (s, t)"
    by blast
  from Suc.IH[OF rest] obtain k where k: "map endpoints es1 = filter not_self (draws nx g1 k)"
    "g' = skip nx k g1"
    "(es1 = [] \<and> k = 0) \<or> (0 < k \<and> es1 \<noteq> [] \<and> last (draws nx g1 k) = endpoints (last es1))"
    by blast
  let ?K = "Suc j + k"
  have d: "draws nx g ?K = draws nx g (Suc j) @ draws nx g1 k"
    by (simp only: draws_add j(1))
  have "filter not_self (draws nx g ?K) = [(s, t)] @ map endpoints es1"
    unfolding d by (simp only: filter_append j(2) k(1))
  then have 1: "map endpoints es = filter not_self (draws nx g ?K)"
    by (simp add: es endpoints_def)
  have 2: "g' = skip nx ?K g" by (simp only: skip_add k(2) j(1))
  have 3: "last (draws nx g ?K) = endpoints (last es)"
  proof (cases "es1 = []")
    case True
    with k(3) have "k = 0" by auto
    then have "draws nx g ?K = draws nx g (Suc j)" unfolding d by simp
    then have "last (draws nx g ?K) = (s, t)" by (simp only: j(3))
    with True show ?thesis by (simp add: es endpoints_def)
  next
    case False
    with k(3) have kk: "0 < k" "last (draws nx g1 k) = endpoints (last es1)" by auto
    then have "draws nx g1 k \<noteq> []" by (cases k) simp_all
    then have "last (draws nx g ?K) = last (draws nx g1 k)" unfolding d by simp
    with kk False show ?thesis by (simp add: es)
  qed
  have "0 < ?K" "es \<noteq> []" by (simp_all add: es)
  with 1 2 3 show ?case by blast
qed

lemma draws_toy_next: "draws toy_next 0 4 = [(0, 0), (1, 2), (2, 2), (3, 4)]"
  by code_simp

lemma next_non_self_productive:
  assumes "case nx (skip nx k g) of ((s, t), g') \<Rightarrow> s \<noteq> t"
  shows "next_non_self nx g \<noteq> None"
  using assms
proof (induction k arbitrary: g)
  case 0
  then show ?case
    by (subst next_non_self.simps) (auto split: prod.splits)
next
  case (Suc k)
  then have "next_non_self nx (snd (nx g)) \<noteq> None" by simp
  then show ?case
    by (subst next_non_self.simps) (auto split: prod.splits)
qed

lemma RmatBatch_loop_productive:
  assumes "productive nx"
  shows "RmatBatch_loop nx g n ts \<noteq> None"
proof (induction n arbitrary: g ts)
  case 0
  then show ?case by simp
next
  case (Suc n)
  from assms have "\<exists>k. case nx (skip nx k g) of ((s, t), g') \<Rightarrow> s \<noteq> t"
    unfolding productive_def by (rule spec)
  then obtain k where "case nx (skip nx k g) of ((s, t), g') \<Rightarrow> s \<noteq> t" ..
  then have "next_non_self nx g \<noteq> None" by (rule next_non_self_productive)
  then obtain s t g1 where nn: "next_non_self nx g = Some ((s, t), g1)" by auto
  from Suc.IH[of g1 "ts + 1"] obtain es g2 where "RmatBatch_loop nx g1 n (ts + 1) = Some (es, g2)"
    by auto
  with nn show ?case by simp
qed

lemma Rmat_getBatch_Inr:
  assumes "Rmat_getBatch nx ds batchId = Some (Inr (es, ds'))"
  shows "batchId = current_batch ds"
    and "0 \<le> batch_size (rds_args ds)"
    and "RmatBatch_loop nx (generator ds) (nat (batch_size (rds_args ds))) (next_timestamp ds)
          = Some (es, generator ds')"
    and "ds' = ds\<lparr>current_batch := current_batch ds + 1,
                  next_timestamp := next_timestamp ds + batch_size (rds_args ds),
                  generator := generator ds'\<rparr>"
  using assms
  by (auto simp: Rmat_getBatch_def RmatBatch_def Let_def split: if_splits option.splits sum.splits)

lemma rmat_ex_init: "RmatDataset_init toy_mk rmat_ex_args rmat_ex_rargs = Inr rmat_ex"
  by (simp add: RmatDataset_init_def rmat_ex_args_def rmat_ex_rargs_def rmat_ex_def toy_mk_def
      to_size_t_def trunc_div_def Let_def)

lemma skip_toy_next: "skip toy_next k g = g + k"
  by (induction k arbitrary: g) (simp_all add: toy_next_def)

lemma productive_toy_next: "productive toy_next"
  unfolding productive_def
proof
  fix g :: nat
  show "\<exists>k. case toy_next (skip toy_next k g) of ((s, t), g') \<Rightarrow> s \<noteq> t"
  proof (cases "even g")
    case True
    then have "case toy_next (skip toy_next 1 g) of ((s, t), g') \<Rightarrow> s \<noteq> t"
      by (simp add: skip_toy_next toy_next_def mod_2_eq_odd)
    then show ?thesis ..
  next
    case False
    then have "case toy_next (skip toy_next 0 g) of ((s, t), g') \<Rightarrow> s \<noteq> t"
      by (simp add: toy_next_def mod_2_eq_odd)
    then show ?thesis ..
  qed
qed

lemma next_non_self_toy_next:
  "next_non_self toy_next k
     = (if even k then Some ((int (Suc k), int (Suc k) + 1), Suc (Suc k))
        else Some ((int k, int k + 1), Suc k))"
proof (cases "even k")
  case True
  have "next_non_self toy_next k = next_non_self toy_next (Suc k)"
    using True by (subst next_non_self.simps) (simp add: toy_next_def mod_2_eq_odd)
  also have "\<dots> = Some ((int (Suc k), int (Suc k) + 1), Suc (Suc k))"
    using True by (subst next_non_self.simps) (simp add: toy_next_def mod_2_eq_odd)
  finally show ?thesis using True by simp
next
  case False
  then show ?thesis
    by (subst next_non_self.simps) (simp add: toy_next_def mod_2_eq_odd)
qed

lemma RmatBatch_loop_numeral:
  "RmatBatch_loop nx g (numeral k) ts =
     (case next_non_self nx g of
        None \<Rightarrow> None
      | Some ((s, t), g') \<Rightarrow>
          (case RmatBatch_loop nx g' (pred_numeral k) (ts + 1) of
             None \<Rightarrow> None
           | Some (es, g'') \<Rightarrow>
               Some (\<lparr>src = s, dst = t, weight = 1, timestamp = ts\<rparr> # es, g'')))"
  by (simp add: numeral_eq_Suc)

lemma rmat_ex_batch0:
  "Rmat_getBatch toy_next rmat_ex 0
     = Some (Inr ([\<lparr>src = 1, dst = 2, weight = 1, timestamp = 0\<rparr>,
                   \<lparr>src = 3, dst = 4, weight = 1, timestamp = 1\<rparr>],
                  rmat_ex\<lparr>current_batch := 1, next_timestamp := 2, generator := 4\<rparr>))"
  by (simp add: Rmat_getBatch_def RmatBatch_def rmat_ex_def rmat_ex_args_def Let_def
      next_non_self_toy_next RmatBatch_loop_numeral)

text \<open>
  Claim C6. Every batch that \<^verbatim>\<open>getBatch\<close> of the generated dataset returns holds
  exactly \<open>batch_size\<close> edges, none of them a self-edge, each of weight 1, with
  consecutive timestamps that start at the dataset's running timestamp, which advances by
  the number of edges returned. The edges are the generator's own: for some number \<open>k\<close>
  of calls of \<^verbatim>\<open>next_edge\<close>, the sources and destinations of the batch are, in order,
  the pairs among the first \<open>k\<close> the generator yields that are not self-edges, the
  last edge of the batch is the \<open>k\<close>-th pair drawn, and the generator is left in its
  state after these \<open>k\<close> calls. So a self-edge the generator yields is discarded and
  drawn again, it takes no place in the batch and no timestamp, and no pair that is not a
  self-edge is dropped. This holds for every generator. The batch is returned whenever
  the generator is productive; a generator that yields nothing but self-edges keeps the
  loop running forever.
\<close>

theorem rmat_batch_has_no_self_edges:
  "(Rmat_getBatch nx ds batchId = Some (Inr (es, ds')) \<longrightarrow>
       int (length es) = batch_size (rds_args ds)
     \<and> (\<forall>e\<in>set es. src e \<noteq> dst e \<and> weight e = 1)
     \<and> (\<forall>i<length es. timestamp (es ! i) = next_timestamp ds + int i)
     \<and> next_timestamp ds' = next_timestamp ds + int (length es)
     \<and> (\<exists>k. map endpoints es = filter not_self (draws nx (generator ds) k)
            \<and> generator ds' = skip nx k (generator ds)
            \<and> ((es = [] \<and> k = 0)
                \<or> (0 < k \<and> es \<noteq> []
                    \<and> last (draws nx (generator ds) k) = endpoints (last es)))))
   \<and> (productive nx \<and> batchId = current_batch ds \<and> 0 \<le> batch_size (rds_args ds)
        \<and> batch_size (rds_args ds) \<le> 2 ^ 31 - 1
        \<and> next_timestamp ds + batch_size (rds_args ds) \<le> 2 ^ 63 - 1
      \<longrightarrow> (\<exists>es ds'. Rmat_getBatch nx ds batchId = Some (Inr (es, ds'))))"
proof -
  have 1: "int (length es) = batch_size (rds_args ds)
     \<and> (\<forall>e\<in>set es. src e \<noteq> dst e \<and> weight e = 1)
     \<and> (\<forall>i<length es. timestamp (es ! i) = next_timestamp ds + int i)
     \<and> next_timestamp ds' = next_timestamp ds + int (length es)
     \<and> (\<exists>k. map endpoints es = filter not_self (draws nx (generator ds) k)
            \<and> generator ds' = skip nx k (generator ds)
            \<and> ((es = [] \<and> k = 0)
                \<or> (0 < k \<and> es \<noteq> []
                    \<and> last (draws nx (generator ds) k) = endpoints (last es))))"
    if r: "Rmat_getBatch nx ds batchId = Some (Inr (es, ds'))"
  proof -
    note f = Rmat_getBatch_Inr[OF r]
    from RmatBatch_loop_Some[OF f(3)] have l: "length es = nat (batch_size (rds_args ds))"
      and p: "\<forall>e\<in>set es. src e \<noteq> dst e \<and> weight e = 1"
      and t: "\<forall>i<nat (batch_size (rds_args ds)). timestamp (es ! i) = next_timestamp ds + int i"
      by simp_all
    from l f(2) have li: "int (length es) = batch_size (rds_args ds)" by simp
    have "next_timestamp ds' = next_timestamp ds + batch_size (rds_args ds)"
      by (subst f(4)) simp
    with li p t l have a: "int (length es) = batch_size (rds_args ds)
     \<and> (\<forall>e\<in>set es. src e \<noteq> dst e \<and> weight e = 1)
     \<and> (\<forall>i<length es. timestamp (es ! i) = next_timestamp ds + int i)
     \<and> next_timestamp ds' = next_timestamp ds + int (length es)" by simp
    note b = RmatBatch_loop_draws[OF f(3)]
    from a b show ?thesis by (intro conjI) (elim conjE, assumption)+
  qed
  have 2: "\<exists>es ds'. Rmat_getBatch nx ds batchId = Some (Inr (es, ds'))"
    if "productive nx" "batchId = current_batch ds" "0 \<le> batch_size (rds_args ds)"
      "batch_size (rds_args ds) \<le> 2 ^ 31 - 1"
      "next_timestamp ds + batch_size (rds_args ds) \<le> 2 ^ 63 - 1"
  proof -
    from RmatBatch_loop_productive[OF that(1)]
    obtain r where "RmatBatch_loop nx (generator ds) (nat (batch_size (rds_args ds)))
        (next_timestamp ds) = Some r" by blast
    then show ?thesis using that(2-5)
      by (cases r) (simp add: Rmat_getBatch_def RmatBatch_def Let_def)
  qed
  from 1 2 show ?thesis by blast
qed

theorem rmat_batch_has_no_self_edges_witness:
  "Rmat_getBatch toy_next rmat_ex 0
     = Some (Inr ([\<lparr>src = 1, dst = 2, weight = 1, timestamp = 0\<rparr>,
                   \<lparr>src = 3, dst = 4, weight = 1, timestamp = 1\<rparr>],
                  rmat_ex\<lparr>current_batch := 1, next_timestamp := 2, generator := 4\<rparr>))
   \<and> productive toy_next \<and> 0 = current_batch rmat_ex \<and> 0 \<le> batch_size (rds_args rmat_ex)
   \<and> batch_size (rds_args rmat_ex) \<le> 2 ^ 31 - 1
   \<and> next_timestamp rmat_ex + batch_size (rds_args rmat_ex) \<le> 2 ^ 63 - 1
   \<and> int (length [\<lparr>src = 1, dst = 2, weight = 1, timestamp = 0\<rparr>,
                   \<lparr>src = 3, dst = (4::int), weight = 1, timestamp = 1\<rparr>])
       = batch_size (rds_args rmat_ex)
   \<and> draws toy_next (generator rmat_ex) 4 = [(0, 0), (1, 2), (2, 2), (3, 4)]
   \<and> (\<exists>k. map endpoints [\<lparr>src = 1, dst = 2, weight = 1, timestamp = 0\<rparr>,
                             \<lparr>src = 3, dst = 4, weight = 1, timestamp = 1\<rparr>]
             = filter not_self (draws toy_next (generator rmat_ex) k)
          \<and> (4::nat) = skip toy_next k (generator rmat_ex)
          \<and> 0 < k
          \<and> last (draws toy_next (generator rmat_ex) k)
              = endpoints \<lparr>src = 3, dst = 4, weight = 1, timestamp = 1\<rparr>)
   \<and> (\<exists>es ds'. Rmat_getBatch toy_next rmat_ex 0 = Some (Inr (es, ds')))"
  using rmat_batch_has_no_self_edges[of toy_next rmat_ex 0
          "[\<lparr>src = 1, dst = 2, weight = 1, timestamp = 0\<rparr>,
            \<lparr>src = 3, dst = 4, weight = 1, timestamp = 1\<rparr>]"
          "rmat_ex\<lparr>current_batch := 1, next_timestamp := 2, generator := 4\<rparr>"]
    rmat_ex_batch0 productive_toy_next draws_toy_next
  by (simp add: rmat_ex_def rmat_ex_args_def)

section \<open>Resetting the generated dataset\<close>

lemma Rmat_getBatch_params:
  assumes "Rmat_getBatch nx ds i = Some (Inr (es, ds'))"
  shows "ds'\<lparr>current_batch := cb, next_timestamp := nt, generator := gen\<rparr>
       = ds\<lparr>current_batch := cb, next_timestamp := nt, generator := gen\<rparr>"
  by (subst Rmat_getBatch_Inr(4)[OF assms]) simp

lemma Rmat_getBatches_params:
  "Rmat_getBatches nx ds ids = Some (Inr (bs, ds')) \<Longrightarrow>
   ds'\<lparr>current_batch := cb, next_timestamp := nt, generator := gen\<rparr>
       = ds\<lparr>current_batch := cb, next_timestamp := nt, generator := gen\<rparr>"
proof (induction ids arbitrary: ds bs)
  case Nil
  then show ?case by simp
next
  case (Cons i ids)
  from Cons.prems obtain es ds1 bs1 where
    1: "Rmat_getBatch nx ds i = Some (Inr (es, ds1))"
    and 2: "Rmat_getBatches nx ds1 ids = Some (Inr (bs1, ds'))"
    by (auto split: option.splits sum.splits prod.splits)
  from Cons.IH[OF 2] Rmat_getBatch_params[OF 1] show ?case by simp
qed

lemma RmatDataset_init_fresh:
  assumes "RmatDataset_init mk args rargs = Inr ds0"
  shows "ds0\<lparr>current_batch := 0, next_timestamp := 0,
             generator := mk (rmat_num_vertices (rmat_args ds0)) (rmat_a (rmat_args ds0))
                       (rmat_b (rmat_args ds0)) (rmat_c (rmat_args ds0)) (rmat_d (rmat_args ds0))\<rparr> = ds0"
  using assms by (auto simp: RmatDataset_init_def Let_def split: if_splits)

text \<open>
  Claim C9. Take a generated dataset as its constructor returns it and call
  \<^verbatim>\<open>getBatch\<close> any number of times. After \<^verbatim>\<open>reset()\<close> the dataset is again the one
  the constructor returned, so the calls \<^verbatim>\<open>getBatch(0)\<close>, \<^verbatim>\<open>getBatch(1)\<close>, ... give
  the same batches, edge for edge, and leave the same state behind, as they give on the
  freshly constructed dataset. The generator's constructor is taken to be a function of
  its arguments.
\<close>

theorem reset_replays_batches:
  assumes init: "RmatDataset_init mk args rargs = Inr ds0"
    and used: "Rmat_getBatches nx ds0 ids = Some (Inr (bs, ds))"
  shows "Rmat_reset mk ds = ds0
       \<and> Rmat_getBatches nx (Rmat_reset mk ds) (map int [0..<n])
           = Rmat_getBatches nx ds0 (map int [0..<n])"
proof -
  let ?g = "mk (rmat_num_vertices (rmat_args ds0)) (rmat_a (rmat_args ds0))
                       (rmat_b (rmat_args ds0)) (rmat_c (rmat_args ds0)) (rmat_d (rmat_args ds0))"
  have p: "ds\<lparr>current_batch := 0, next_timestamp := 0, generator := ?g\<rparr>
       = ds0\<lparr>current_batch := 0, next_timestamp := 0, generator := ?g\<rparr>"
    using used by (rule Rmat_getBatches_params)
  have "rmat_args (ds\<lparr>current_batch := 0, next_timestamp := 0, generator := ?g\<rparr>)
      = rmat_args (ds0\<lparr>current_batch := 0, next_timestamp := 0, generator := ?g\<rparr>)"
    by (simp only: p)
  then have r: "rmat_args ds = rmat_args ds0" by simp
  have "Rmat_reset mk ds = ds0"
    unfolding Rmat_reset_def r p using RmatDataset_init_fresh[OF init] .
  then show ?thesis by simp
qed


lemma rmat_ex_batches:
  "Rmat_getBatches toy_next rmat_ex [0]
     = Some (Inr ([[\<lparr>src = 1, dst = 2, weight = 1, timestamp = 0\<rparr>,
                    \<lparr>src = 3, dst = 4, weight = 1, timestamp = 1\<rparr>]],
                  rmat_ex\<lparr>current_batch := 1, next_timestamp := 2, generator := 4\<rparr>))"
  "Rmat_getBatches toy_next rmat_ex (map int [0..<2])
     = Some (Inr ([[\<lparr>src = 1, dst = 2, weight = 1, timestamp = 0\<rparr>,
                    \<lparr>src = 3, dst = 4, weight = 1, timestamp = 1\<rparr>],
                   [\<lparr>src = 5, dst = 6, weight = 1, timestamp = 2\<rparr>,
                    \<lparr>src = 7, dst = 8, weight = 1, timestamp = 3\<rparr>]],
                  rmat_ex\<lparr>current_batch := 2, next_timestamp := 4, generator := 8\<rparr>))"
  by (simp_all add: rmat_ex_batch0 upt_conv_Cons Rmat_getBatch_def RmatBatch_def rmat_ex_def
      rmat_ex_args_def Let_def next_non_self_toy_next RmatBatch_loop_numeral)

theorem reset_replays_batches_witness:
  "RmatDataset_init toy_mk rmat_ex_args rmat_ex_rargs = Inr rmat_ex
   \<and> Rmat_getBatches toy_next rmat_ex [0]
     = Some (Inr ([[\<lparr>src = 1, dst = 2, weight = 1, timestamp = 0\<rparr>,
                    \<lparr>src = 3, dst = 4, weight = 1, timestamp = 1\<rparr>]],
                  rmat_ex\<lparr>current_batch := 1, next_timestamp := 2, generator := 4\<rparr>))
   \<and> Rmat_getBatches toy_next
         (Rmat_reset toy_mk (rmat_ex\<lparr>current_batch := 1, next_timestamp := 2, generator := 4\<rparr>))
         (map int [0..<2])
     = Some (Inr ([[\<lparr>src = 1, dst = 2, weight = 1, timestamp = 0\<rparr>,
                    \<lparr>src = 3, dst = 4, weight = 1, timestamp = 1\<rparr>],
                   [\<lparr>src = 5, dst = 6, weight = 1, timestamp = 2\<rparr>,
                    \<lparr>src = 7, dst = 8, weight = 1, timestamp = 3\<rparr>]],
                  rmat_ex\<lparr>current_batch := 2, next_timestamp := 4, generator := 8\<rparr>))"
  using reset_replays_batches[OF rmat_ex_init rmat_ex_batches(1), of 2] rmat_ex_init rmat_ex_batches
  by simp

section \<open>Rounding to double precision\<close>

text \<open>
  \<open>exponent\<close> is the binary exponent, and a number that lies strictly closer to the
  multiple \<open>m * 2^(e-52)\<close> than to any other is rounded to it. With these two facts a
  rounding is checked by comparing numerals.
\<close>

lemma exponent_bounds_ge1:
  assumes "1 \<le> (x::rat)"
  shows "2 powi (exponent x) \<le> x \<and> x < 2 powi (exponent x + 1)"
proof -
  let ?n = "nat \<lfloor>x\<rfloor>"
  let ?L = "floorlog 2 ?n"
  from assms have fl1: "1 \<le> \<lfloor>x\<rfloor>" by simp
  then have n: "0 < ?n" by simp
  have "(1::nat) < 2" by simp
  from floorlog_bounds[OF n this] have b: "2 ^ (?L - 1) \<le> ?n" "?n < 2 ^ ?L" by blast+
  have L: "0 < ?L"
  proof (rule ccontr)
    assume "\<not> 0 < ?L"
    then have "?L = 0" by simp
    then have "(2::nat) \<le> 1 \<or> ?n \<le> 0" by (simp only: floorlog_eq_zero_iff)
    with n show False by simp
  qed
  have e: "exponent x = int (?L - 1)" using assms L by (simp add: exponent_def of_nat_diff)
  have "(of_nat (2 ^ (?L - 1)) :: rat) \<le> of_nat ?n" using b(1) by (simp only: of_nat_le_iff)
  also have "(of_nat ?n :: rat) = of_int \<lfloor>x\<rfloor>" using fl1 by simp
  also have "\<dots> \<le> x" by simp
  finally have lo: "(2::rat) ^ (?L - 1) \<le> x" by simp
  have "x < of_int (\<lfloor>x\<rfloor> + 1)" by linarith
  also have "of_int (\<lfloor>x\<rfloor> + 1) = (of_nat (?n + 1) :: rat)" using fl1 by simp
  also have "(of_nat (?n + 1) :: rat) \<le> of_nat (2 ^ ?L)"
    using b(2) by (simp only: of_nat_le_iff)
  finally have hi: "x < (2::rat) ^ ?L" by simp
  have "int (?L - 1) + 1 = int ?L" using L by simp
  then have "2 powi (exponent x + 1) = (2::rat) ^ ?L" by (simp only: e power_int_of_nat)
  moreover have "2 powi (exponent x) = (2::rat) ^ (?L - 1)" by (simp only: e power_int_of_nat)
  ultimately show ?thesis using lo hi by simp
qed

lemma exponent_bounds_lt1:
  assumes "0 < (x::rat)" "x < 1"
  shows "2 powi (exponent x) \<le> x \<and> x < 2 powi (exponent x + 1)"
proof -
  define y where "y = 1 / x"
  define k where "k = \<lceil>y\<rceil>"
  define m where "m = nat (k - 1)"
  define L where "L = floorlog 2 m"
  from assms have y1: "1 < y" by (simp add: y_def)
  have ky: "y \<le> of_int k" "of_int (k - 1) < y" unfolding k_def by linarith+
  from y1 ky(1) have "(1::rat) < of_int k" by linarith
  then have k2: "2 \<le> k" by linarith
  then have m: "0 < m" and mk: "int m = k - 1" by (simp_all add: m_def)
  have "(1::nat) < 2" by simp
  from floorlog_bounds[OF m this] have b: "2 ^ (L - 1) \<le> m" "m < 2 ^ L"
    unfolding L_def by blast+
  have L: "0 < L"
  proof (rule ccontr)
    assume "\<not> 0 < L"
    then have "floorlog 2 m = 0" by (simp add: L_def)
    then have "(2::nat) \<le> 1 \<or> m \<le> 0" by (simp only: floorlog_eq_zero_iff)
    with m show False by simp
  qed
  have e: "exponent x = - int L"
    using assms by (simp add: exponent_def L_def m_def k_def y_def)
  have "int (m + 1) \<le> int (2 ^ L)" using b(2) by (simp only: of_nat_le_iff)
  then have "k \<le> 2 ^ L" using mk by simp
  then have "(of_int k :: rat) \<le> of_int (2 ^ L)" by (simp only: of_int_le_iff)
  also have "(of_int (2 ^ L) :: rat) = 2 ^ L" by simp
  finally have "(of_int k :: rat) \<le> 2 ^ L" .
  with ky(1) have "y \<le> 2 ^ L" by (rule order_trans)
  then have lo: "1 / 2 ^ L \<le> x" using assms(1) by (simp add: y_def field_simps)
  have "int (2 ^ (L - 1)) \<le> int m" using b(1) by (simp only: of_nat_le_iff)
  then have "2 ^ (L - 1) \<le> k - 1" using mk by simp
  then have "(of_int (2 ^ (L - 1)) :: rat) \<le> of_int (k - 1)" by (simp only: of_int_le_iff)
  moreover have "(of_int (2 ^ (L - 1)) :: rat) = 2 ^ (L - 1)" by simp
  ultimately have "(2::rat) ^ (L - 1) \<le> of_int (k - 1)" by (simp only:)
  from this ky(2) have "2 ^ (L - 1) < y" by (rule le_less_trans)
  then have hi: "x < 1 / 2 ^ (L - 1)" using assms(1) by (simp add: y_def field_simps)
  have "2 powi (exponent x) = (1::rat) / 2 ^ L"
    by (simp only: e power_int_minus_divide power_int_of_nat)
  moreover have "exponent x + 1 = - int (L - 1)" using L by (simp add: e)
  then have "2 powi (exponent x + 1) = (1::rat) / 2 ^ (L - 1)"
    by (simp only: power_int_minus_divide power_int_of_nat)
  ultimately show ?thesis using lo hi by simp
qed

lemma exponent_bounds:
  "0 < (x::rat) \<Longrightarrow> 2 powi (exponent x) \<le> x \<and> x < 2 powi (exponent x + 1)"
  using exponent_bounds_ge1[of x] exponent_bounds_lt1[of x] by (cases "1 \<le> x") auto

lemma exponent_eqI:
  assumes "0 < (x::rat)" "2 powi e \<le> x" "x < 2 powi (e + 1)"
  shows "exponent x = e"
proof -
  from exponent_bounds[OF assms(1)]
  have b: "2 powi (exponent x) \<le> x" "x < 2 powi (exponent x + 1)" by simp_all
  have "\<not> exponent x < e"
  proof
    assume "exponent x < e"
    then have "exponent x + 1 \<le> e" by simp
    then have "(2::rat) powi (exponent x + 1) \<le> 2 powi e" by (rule power_int_increasing) simp
    with b(2) assms(2) show False by simp
  qed
  moreover have "\<not> e < exponent x"
  proof
    assume "e < exponent x"
    then have "e + 1 \<le> exponent x" by simp
    then have "(2::rat) powi (e + 1) \<le> 2 powi (exponent x)" by (rule power_int_increasing) simp
    with b(1) assms(3) show False by simp
  qed
  ultimately show ?thesis by simp
qed

lemma round_half_even_nearest:
  assumes "\<bar>y - of_int m\<bar> < 1 / 2"
  shows "round_half_even y = m"
proof (cases "of_int m \<le> y")
  case True
  with assms have "\<lfloor>y\<rfloor> = m" by (intro floor_unique) linarith+
  with assms True show ?thesis by (simp add: round_half_even_def Let_def)
next
  case False
  from assms False have "of_int (m - 1) \<le> y" "y < of_int (m - 1) + 1" by simp_all
  then have f: "\<lfloor>y\<rfloor> = m - 1" by (rule floor_unique)
  from assms False have "y - of_int (m - 1) > 1 / 2" by simp
  with f show ?thesis by (simp add: round_half_even_def Let_def)
qed

lemma round_to_double_nearest:
  assumes "0 < x" "2 powi e \<le> x" "x < 2 powi (e + 1)" "- 1022 \<le> e"
    and "\<bar>x / 2 powi (e - 52) - of_int m\<bar> < 1 / 2"
  shows "round_to_double x = of_int m * 2 powi (e - 52)"
proof -
  have "exponent \<bar>x\<bar> = e" using assms(1-3) by (simp add: exponent_eqI)
  moreover have "max e (- 1022) = e" using assms(4) by simp
  moreover have "round_half_even (\<bar>x\<bar> / 2 powi (e - 52)) = m"
    using assms(1,5) by (simp add: round_half_even_nearest)
  ultimately show ?thesis using assms(1) by (simp add: round_to_double_def Let_def)
qed


lemma round_to_double_of_int_pos:
  assumes "0 < k" "k < 2 ^ 53"
  shows "round_to_double (of_int k) = of_int k"
proof -
  define e where "e = exponent (of_int k)"
  have kpos: "(0::rat) < of_int k" using assms(1) by simp
  from exponent_bounds[OF kpos] have b: "2 powi e \<le> (of_int k :: rat)" "(of_int k :: rat) < 2 powi (e + 1)"
    by (simp_all add: e_def)
  have e0: "0 \<le> e"
  proof (rule ccontr)
    assume "\<not> 0 \<le> e"
    then have "e + 1 \<le> 0" by simp
    then have "(2::rat) powi (e + 1) \<le> 2 powi 0" by (rule power_int_increasing) simp
    with b(2) have "(of_int k :: rat) < 1" by simp
    with assms(1) show False by simp
  qed
  have e52: "e \<le> 52"
  proof (rule ccontr)
    assume "\<not> e \<le> 52"
    then have "53 \<le> e" by simp
    then have "(2::rat) powi 53 \<le> 2 powi e" by (rule power_int_increasing) simp
    with b(1) have "(2::rat) ^ 53 \<le> of_int k" by simp
    then have "(of_int (2 ^ 53) :: rat) \<le> of_int k" by simp
    then have "2 ^ 53 \<le> k" by (simp only: of_int_le_iff)
    with assms(2) show False by simp
  qed
  define j where "j = nat (52 - e)"
  have je: "e - 52 = - int j" using e52 by (simp add: j_def)
  have u: "(2::rat) powi (e - 52) = 1 / 2 ^ j"
    by (simp only: je power_int_minus_divide power_int_of_nat)
  have q: "(of_int k :: rat) / 2 powi (e - 52) = of_int (k * 2 ^ j)" by (simp add: u)
  have "round_to_double (of_int k) = of_int (k * 2 ^ j) * 2 powi (e - 52)"
    using kpos b
  proof (rule round_to_double_nearest)
    show "- 1022 \<le> e" using e0 by simp
    show "\<bar>(of_int k :: rat) / 2 powi (e - 52) - of_int (k * 2 ^ j)\<bar> < 1 / 2"
      unfolding q by simp
  qed
  also have "\<dots> = of_int k" by (simp add: u)
  finally show ?thesis .
qed

lemma of_int64_exact: "0 \<le> k \<Longrightarrow> k < 2 ^ 53 \<Longrightarrow> of_int64 k = of_int k"
  using round_to_double_of_int_pos[of k]
  by (cases "k = 0") (simp_all add: of_int64_def round_to_double_def)

text \<open>
  The doubles of the run with nine batches and seven epochs: \<open>9 / 7\<close> is rounded up,
  and so \<open>9\<close> divided by the result falls just below \<open>7\<close>.
\<close>

lemma batches_per_epoch_9_7: "true_div 9 7 = 5790342378047781 / 4503599627370496"
  using round_to_double_nearest[of "9 / 7" 0 5790342378047781]
  by (simp add: true_div_def ddiv_def of_int64_exact power_int_minus_divide)

lemma epochs_before_0: "true_div_double 0 (5790342378047781 / 4503599627370496) = 0"
  by (simp add: true_div_double_def ddiv_def of_int64_exact round_to_double_def)

lemma epochs_before_1: "true_div_double 1 (5790342378047781 / 4503599627370496) = 875699927544263 / 1125899906842624"
  using round_to_double_nearest[of "1 / (5790342378047781 / 4503599627370496)" "-1" 7005599420354104]
  by (simp add: true_div_double_def ddiv_def of_int64_exact power_int_minus_divide)

lemma epochs_before_2: "true_div_double 2 (5790342378047781 / 4503599627370496) = 875699927544263 / 562949953421312"
  using round_to_double_nearest[of "2 / (5790342378047781 / 4503599627370496)" 0 7005599420354104]
  by (simp add: true_div_double_def ddiv_def of_int64_exact power_int_minus_divide)

lemma epochs_before_3: "true_div_double 3 (5790342378047781 / 4503599627370496) = 2627099782632789 / 1125899906842624"
  using round_to_double_nearest[of "3 / (5790342378047781 / 4503599627370496)" 1 5254199565265578]
  by (simp add: true_div_double_def ddiv_def of_int64_exact power_int_minus_divide)

lemma epochs_before_4: "true_div_double 4 (5790342378047781 / 4503599627370496) = 875699927544263 / 281474976710656"
  using round_to_double_nearest[of "4 / (5790342378047781 / 4503599627370496)" 1 7005599420354104]
  by (simp add: true_div_double_def ddiv_def of_int64_exact power_int_minus_divide)

lemma epochs_before_5: "true_div_double 5 (5790342378047781 / 4503599627370496) = 4378499637721315 / 1125899906842624"
  using round_to_double_nearest[of "5 / (5790342378047781 / 4503599627370496)" 1 8756999275442630]
  by (simp add: true_div_double_def ddiv_def of_int64_exact power_int_minus_divide)

lemma epochs_before_6: "true_div_double 6 (5790342378047781 / 4503599627370496) = 2627099782632789 / 562949953421312"
  using round_to_double_nearest[of "6 / (5790342378047781 / 4503599627370496)" 2 5254199565265578]
  by (simp add: true_div_double_def ddiv_def of_int64_exact power_int_minus_divide)

lemma epochs_before_7: "true_div_double 7 (5790342378047781 / 4503599627370496) = 6129899492809841 / 1125899906842624"
  using round_to_double_nearest[of "7 / (5790342378047781 / 4503599627370496)" 2 6129899492809841]
  by (simp add: true_div_double_def ddiv_def of_int64_exact power_int_minus_divide)

lemma epochs_before_8: "true_div_double 8 (5790342378047781 / 4503599627370496) = 875699927544263 / 140737488355328"
  using round_to_double_nearest[of "8 / (5790342378047781 / 4503599627370496)" 2 7005599420354104]
  by (simp add: true_div_double_def ddiv_def of_int64_exact power_int_minus_divide)

lemma epochs_before_9: "true_div_double 9 (5790342378047781 / 4503599627370496) = 7881299347898367 / 1125899906842624"
  using round_to_double_nearest[of "9 / (5790342378047781 / 4503599627370496)" 2 7881299347898367]
  by (simp add: true_div_double_def ddiv_def of_int64_exact power_int_minus_divide)


lemma epochs_floor_0: "round_down (true_div_double 0 (5790342378047781 / 4503599627370496)) = 0"
  unfolding epochs_before_0 round_down_def by (rule floor_unique) simp_all

lemma epochs_floor_1: "round_down (true_div_double 1 (5790342378047781 / 4503599627370496)) = 0"
  unfolding epochs_before_1 round_down_def by (rule floor_unique) simp_all

lemma epochs_floor_2: "round_down (true_div_double 2 (5790342378047781 / 4503599627370496)) = 1"
  unfolding epochs_before_2 round_down_def by (rule floor_unique) simp_all

lemma epochs_floor_3: "round_down (true_div_double 3 (5790342378047781 / 4503599627370496)) = 2"
  unfolding epochs_before_3 round_down_def by (rule floor_unique) simp_all

lemma epochs_floor_4: "round_down (true_div_double 4 (5790342378047781 / 4503599627370496)) = 3"
  unfolding epochs_before_4 round_down_def by (rule floor_unique) simp_all

lemma epochs_floor_5: "round_down (true_div_double 5 (5790342378047781 / 4503599627370496)) = 3"
  unfolding epochs_before_5 round_down_def by (rule floor_unique) simp_all

lemma epochs_floor_6: "round_down (true_div_double 6 (5790342378047781 / 4503599627370496)) = 4"
  unfolding epochs_before_6 round_down_def by (rule floor_unique) simp_all

lemma epochs_floor_7: "round_down (true_div_double 7 (5790342378047781 / 4503599627370496)) = 5"
  unfolding epochs_before_7 round_down_def by (rule floor_unique) simp_all

lemma epochs_floor_8: "round_down (true_div_double 8 (5790342378047781 / 4503599627370496)) = 6"
  unfolding epochs_before_8 round_down_def by (rule floor_unique) simp_all

lemma epochs_floor_9: "round_down (true_div_double 9 (5790342378047781 / 4503599627370496)) = 6"
  unfolding epochs_before_9 round_down_def by (rule floor_unique) simp_all

section \<open>Epoch gating\<close>

lemma ds9_init: "EdgeListDataset_init args9 edges9 = Inr ds9"
  by (simp add: EdgeListDataset_init_def args9_def edges9_def ds9_def to_size_t_def Let_def
      upt_conv_Cons)

lemma enableAlgsForBatch_ds9:
  "enableAlgsForBatch ds9 0 = Inr False"
  "enableAlgsForBatch ds9 1 = Inr True"
  "enableAlgsForBatch ds9 2 = Inr True"
  "enableAlgsForBatch ds9 3 = Inr True"
  "enableAlgsForBatch ds9 4 = Inr False"
  "enableAlgsForBatch ds9 5 = Inr True"
  "enableAlgsForBatch ds9 6 = Inr True"
  "enableAlgsForBatch ds9 7 = Inr True"
  "enableAlgsForBatch ds9 8 = Inr False"
  by (simp_all add: enableAlgsForBatch_def ds9_def args9_def length_make_batches Let_def
      batches_per_epoch_9_7 int64_def
      epochs_floor_0 epochs_floor_1 epochs_floor_2 epochs_floor_3 epochs_floor_4
      epochs_floor_5 epochs_floor_6 epochs_floor_7 epochs_floor_8 epochs_floor_9)

text \<open>
  The generated dataset gates its epochs with the same computation.
\<close>

lemma Rmat_enableAlgsForBatch_same:
  "num_batches rds = int (length (batches ds)) \<Longrightarrow> num_epochs (rds_args rds) = num_epochs (ds_args ds)
   \<Longrightarrow> Rmat_enableAlgsForBatch rds i = enableAlgsForBatch ds i"
  by (simp add: Rmat_enableAlgsForBatch_def enableAlgsForBatch_def)

text \<open>
  Claim C2 does not hold of the program. A dataset of nine batches with seven epochs
  satisfies \<open>1 \<le> num_epochs \<le> num_batches\<close>, and the constructor accepts it. In double
  precision \<open>9 / 7\<close> is rounded up, so \<open>9\<close> divided by it is rounded to the double
  just below \<open>7\<close>, and its floor is \<open>6\<close>: \<^verbatim>\<open>enableAlgsForBatch\<close> is true for six
  batch ids, not seven, and false for the final batch, id 8. The loop of \<^verbatim>\<open>run\<close>
  asserts that the number of epochs executed equals \<open>num_epochs\<close>.
\<close>

theorem epoch_gate_misses_final_batch:
  "EdgeListDataset_init args9 edges9 = Inr ds9
   \<and> length (batches ds9) = 9 \<and> num_epochs (ds_args ds9) = 7
   \<and> map (enableAlgsForBatch ds9) [0, 1, 2, 3, 4, 5, 6, 7, 8]
       = [Inr False, Inr True, Inr True, Inr True, Inr False, Inr True, Inr True, Inr True,
          Inr False]
   \<and> length (filter (\<lambda>i. enableAlgsForBatch ds9 i = Inr True) [0, 1, 2, 3, 4, 5, 6, 7, 8]) = 6"
  by (simp add: ds9_init enableAlgsForBatch_ds9) (simp add: ds9_def args9_def length_make_batches)

section \<open>The window threshold\<close>

text \<open>
  On a dataset built from an edge list, \<^verbatim>\<open>getTimestampForWindow\<close> returns the value
  of the specification's formula, taken at the timestamp of the last edge of the batch.
\<close>

lemma getTimestampForWindow_formula:
  assumes ok: "EdgeListDataset_init args es = Inr ds"
    and bs: "1 \<le> batch_size args" "batch_size args < 2 ^ 63"
    and r: "getTimestampForWindow ds batchId = Inr t"
  shows "0 \<le> batchId \<and> batchId < int (length (batches ds))
    \<and> t = window_formula (window_size args) (min_timestamp ds) (max_timestamp ds)
          (timestamp (last (batch_edges (edges ds) (batches ds ! nat batchId))))"
proof -
  from r have id: "0 \<le> batchId" "batchId < int (length (batches ds))"
    by (auto simp: getTimestampForWindow_def split: if_splits)
  then have i: "nat batchId < length (batches ds)" by simp
  let ?b = "batches ds ! nat batchId"
  let ?bs = "nat (batch_size args)"
  from batches_partition[OF ok bs] i
  have be: "batch_edges (edges ds) ?b = take ?bs (drop (nat batchId * ?bs) es)"
    and len: "length (batch_edges (edges ds) ?b) = ?bs"
    and en: "end_iter ?b = (nat batchId + 1) * ?bs"
    and le: "end_iter ?b \<le> length es - length es mod ?bs" by blast+
  from bs(1) have bpos: "0 < ?bs" by simp
  from le have w: "nat batchId * ?bs + ?bs \<le> length es" by (simp add: en)
  have ne: "batch_edges (edges ds) ?b \<noteq> []" using len bpos by auto
  have "last (batch_edges (edges ds) ?b) = batch_edges (edges ds) ?b ! (?bs - 1)"
    using last_conv_nth[OF ne] by (simp only: len)
  also have "\<dots> = es ! (nat batchId * ?bs + (?bs - 1))"
    using bpos w by (simp add: be)
  also have "nat batchId * ?bs + (?bs - 1) = end_iter ?b - 1" using bpos by (simp add: en)
  finally have l: "timestamp (last (batch_edges (edges ds) ?b))
      = timestamp (edges ds ! (end_iter ?b - 1))"
    using EdgeListDataset_init_Inr(6)[OF ok] by simp
  have a: "ds_args ds = args" using EdgeListDataset_init_Inr(7)[OF ok] .
  from r have "t = max (min_timestamp ds)
      (timestamp (edges ds ! (end_iter ?b - 1))
        - round_down (dmul (window_size args) (of_int64 (max_timestamp ds - min_timestamp ds))))"
    by (auto simp: getTimestampForWindow_def a Let_def split: if_splits)
  with id l show ?thesis by (simp add: window_formula_def)
qed


text \<open>
  Claim C4 does not hold of the generated dataset, by a slip of
  \<^verbatim>\<open>RmatDataset::getTimestampForWindow\<close>. Take batches of two edges, four edges in all
  and a window size of \<open>0\<close>. The edges of batch 0 carry the timestamps 0 and 1 and
  those of the dataset run from 0 to 3. The window is 0 wide, as the program computes it
  and as the formula of the claim does, so the threshold is to be the timestamp of the
  last edge of batch 0, which is 1. The program returns 2. Under the comment
  \<^verbatim>\<open>Get the timestamp of the last edge in the current batch\<close> it takes
  \<^verbatim>\<open>(batchId + 1) * batch_size\<close>, which is the timestamp of the first edge of the next
  batch, one more than that of the last edge of this one. The dataset of a loaded edge
  list reads the timestamp off the last edge of the batch.
\<close>

theorem rmat_window_is_one_past_last_edge:
  "RmatDataset_init toy_mk rmat_ex_args rmat_ex_rargs = Inr rmat_ex
   \<and> Rmat_getBatches toy_next rmat_ex (map int [0..<2])
     = Some (Inr ([[\<lparr>src = 1, dst = 2, weight = 1, timestamp = 0\<rparr>,
                    \<lparr>src = 3, dst = 4, weight = 1, timestamp = 1\<rparr>],
                   [\<lparr>src = 5, dst = 6, weight = 1, timestamp = 2\<rparr>,
                    \<lparr>src = 7, dst = 8, weight = 1, timestamp = 3\<rparr>]],
                  rmat_ex\<lparr>current_batch := 2, next_timestamp := 4, generator := 8\<rparr>))
   \<and> double_to_int64 (dmul (of_int64 (num_edges rmat_ex)) (window_size (rds_args rmat_ex))) = 0
   \<and> round_down (dmul (window_size (rds_args rmat_ex)) (of_int64 (3 - 0))) = 0
   \<and> (0 + 1) * batch_size (rds_args rmat_ex) = 2
   \<and> Rmat_getTimestampForWindow rmat_ex 0 = Inr 2
   \<and> window_formula (window_size (rds_args rmat_ex)) 0 3 1 = 1"
  by (simp add: rmat_ex_init rmat_ex_batches)
     (simp add: Rmat_getTimestampForWindow_def window_formula_def rmat_ex_def rmat_ex_args_def
        dmul_def round_to_double_def double_to_int64_def round_down_def int64_def Let_def)

section \<open>The worked example of the specification\<close>

text \<open>
  Batches of two edges, two epochs and a window size of \<open>1\<close>: both batches trigger an
  epoch, and the window threshold is the least timestamp for both.
\<close>


lemma round_to_double_numeral:
  "(numeral n :: int) < 2 ^ 53 \<Longrightarrow> round_to_double (numeral n) = numeral n"
  using round_to_double_of_int_pos[of "numeral n"] by simp

lemma round_to_double_0: "round_to_double 0 = 0"
  by (simp add: round_to_double_def)

lemma round_to_double_1: "round_to_double 1 = 1"
  using round_to_double_of_int_pos[of 1] by simp

lemma ex_dataset_gate:
  "enableAlgsForBatch ex_dataset 0 = Inr True"
  "enableAlgsForBatch ex_dataset 1 = Inr True"
  by (simp_all add: enableAlgsForBatch_def ex_dataset_def ex_args_def Let_def true_div_def
      true_div_double_def ddiv_def of_int64_exact round_to_double_0 round_to_double_1 round_to_double_numeral
      round_down_def int64_def)

lemma ex_dataset_window:
  "getTimestampForWindow ex_dataset 0 = Inr 0"
  "getTimestampForWindow ex_dataset 1 = Inr 0"
  by (simp_all add: getTimestampForWindow_def ex_dataset_def ex_args_def ex_edges_def Let_def
      dmul_def of_int64_exact round_to_double_0 round_to_double_numeral round_down_def int64_def)

section \<open>The window threshold of a loaded edge list\<close>

text \<open>
  Rounding a non-negative number to double precision gives a non-negative number that is
  at most twice the number plus one, so the window width is a 64-bit value whenever the
  timestamps are non-negative and below \<open>2^60\<close>.
\<close>


lemma round_half_even_upper: "of_int (round_half_even q) \<le> q + 1 / 2"
proof -
  define f where "f = \<lfloor>q\<rfloor>"
  have b: "of_int f \<le> q" "q < of_int f + 1" unfolding f_def by linarith+
  have "round_half_even q = f \<or> (round_half_even q = f + 1 \<and> \<not> q - of_int f < 1 / 2)"
    by (auto simp: round_half_even_def Let_def f_def)
  then show ?thesis
  proof
    assume "round_half_even q = f"
    with b show ?thesis by simp
  next
    assume "round_half_even q = f + 1 \<and> \<not> q - of_int f < 1 / 2"
    then have "round_half_even q = f + 1" "1 / 2 \<le> q - of_int f" by simp_all
    then show ?thesis by simp
  qed
qed

lemma round_half_even_nonneg: "0 \<le> q \<Longrightarrow> 0 \<le> round_half_even q"
  by (auto simp: round_half_even_def Let_def)

lemma round_to_double_bounds:
  assumes "0 \<le> x"
  shows "0 \<le> round_to_double x \<and> round_to_double x \<le> 2 * x + 1"
proof (cases "x = 0")
  case True
  then show ?thesis by (simp add: round_to_double_def)
next
  case False
  with assms have pos: "0 < x" by simp
  define e where "e = exponent x"
  define u :: rat where "u = 2 powi (max e (- 1022) - 52)"
  define m where "m = round_half_even (x / u)"
  have upos: "0 < u" by (simp add: u_def)
  have r: "round_to_double x = of_int m * u"
    using pos by (simp add: round_to_double_def Let_def m_def u_def e_def)
  have "0 \<le> x / u" using pos upos by simp
  then have m0: "0 \<le> m" unfolding m_def by (rule round_half_even_nonneg)
  have "of_int m \<le> x / u + 1 / 2" unfolding m_def by (rule round_half_even_upper)
  then have "of_int m * u \<le> (x / u + 1 / 2) * u" using upos by (simp only: mult_le_cancel_right_pos)
  also have "\<dots> = x + u / 2" using upos by (simp add: field_simps)
  finally have up: "of_int m * u \<le> x + u / 2" .
  have "u \<le> 2 * x + 2"
  proof (cases "- 1022 \<le> e")
    case True
    then have "u = 2 powi (e - 52)" by (simp add: u_def)
    also have "(2::rat) powi (e - 52) \<le> 2 powi e" by (rule power_int_increasing) simp_all
    also have "\<dots> \<le> x" using exponent_bounds[OF pos] by (simp add: e_def)
    finally show ?thesis using pos by simp
  next
    case False
    then have "u = 2 powi (- 1074)" by (simp add: u_def)
    also have "(2::rat) powi (- 1074) \<le> 2 powi 0" by (rule power_int_increasing) simp_all
    finally show ?thesis using pos by simp
  qed
  with up have "of_int m * u \<le> 2 * x + 1" by simp
  moreover have "0 \<le> of_int m * u" using m0 upos by simp
  ultimately show ?thesis by (simp add: r)
qed

lemma window_time_int64:
  assumes "0 \<le> w" "w \<le> 1" "0 \<le> sp" "sp < 2 ^ 60"
  shows "int64 (round_down (dmul w (of_int64 sp)))"
    and "0 \<le> round_down (dmul w (of_int64 sp))"
proof -
  define D where "D = of_int64 sp"
  have "(0::rat) \<le> of_int sp" using assms(3) by simp
  from round_to_double_bounds[OF this]
  have D: "0 \<le> D" "D \<le> 2 * of_int sp + 1" by (simp_all add: D_def of_int64_def)
  have wD: "0 \<le> w * D" using assms(1) D(1) by simp
  have "w * D \<le> 1 * D" using assms(2) D(1) by (rule mult_right_mono)
  then have wD': "w * D \<le> D" by simp
  from round_to_double_bounds[OF wD]
  have P: "0 \<le> dmul w D" "dmul w D \<le> 2 * (w * D) + 1" by (simp_all add: dmul_def)
  have "dmul w D \<le> 4 * of_int sp + 3" using P(2) wD' D(2) by linarith
  then have "dmul w D < of_int (4 * sp + 3) + 1" by simp
  then have "\<lfloor>dmul w D\<rfloor> \<le> 4 * sp + 3" by (simp only: floor_le_iff)
  moreover have "0 \<le> \<lfloor>dmul w D\<rfloor>" using P(1) by simp
  moreover define F where "F = \<lfloor>dmul w D\<rfloor>"
  ultimately have F: "F \<le> 4 * sp + 3" "0 \<le> F" by simp_all
  with assms(4) have "- (2 ^ 63) \<le> F \<and> F < 2 ^ 63" by simp
  with F(2) show "int64 (round_down (dmul w (of_int64 sp)))"
    and "0 \<le> round_down (dmul w (of_int64 sp))"
    unfolding int64_def round_down_def D_def F_def by blast+
qed

lemma sorted_hd_le_last: "sorted xs \<Longrightarrow> xs \<noteq> [] \<Longrightarrow> hd xs \<le> (last xs :: int)"
  by (cases xs) (auto simp: last_conv_nth)

lemma getTimestampForWindow_total:
  assumes ok: "EdgeListDataset_init args es = Inr ds"
    and bs: "1 \<le> batch_size args" "batch_size args < 2 ^ 63"
    and ws: "0 \<le> window_size args" "window_size args \<le> 1"
    and ts: "\<forall>e\<in>set es. 0 \<le> timestamp e \<and> timestamp e < 2 ^ 60"
    and id: "0 \<le> batchId" "batchId < int (length (batches ds))"
  shows "getTimestampForWindow ds batchId
       = Inr (window_formula (window_size args) (min_timestamp ds) (max_timestamp ds)
               (timestamp (last (batch_edges (edges ds) (batches ds ! nat batchId)))))"
proof -
  note i = EdgeListDataset_init_Inr[OF ok]
  have t: "to_size_t (batch_size args) = nat (batch_size args)" using bs by (rule to_size_t_pos)
  from i(2) bs(1) have ne: "es \<noteq> []" by (auto simp: t)
  have srt: "sorted (map timestamp es)" using i(4) by (simp only: is_sorted_timestamp)
  have "hd (map timestamp es) \<le> last (map timestamp es)"
    using srt ne by (intro sorted_hd_le_last) simp_all
  then have mm: "min_timestamp ds \<le> max_timestamp ds"
    using ne by (simp add: i(9,10) hd_map last_map)
  have hl: "hd es \<in> set es" "last es \<in> set es" using ne by simp_all
  with ts have rng: "0 \<le> min_timestamp ds" "max_timestamp ds < 2 ^ 60"
    by (auto simp: i(9,10))
  let ?sp = "max_timestamp ds - min_timestamp ds"
  have sp: "0 \<le> ?sp" "?sp < 2 ^ 60" using mm rng by simp_all
  then have i64: "int64 ?sp" by (simp add: int64_def)
  let ?wt = "round_down (dmul (window_size args) (of_int64 ?sp))"
  from window_time_int64[OF ws sp] have wt: "int64 ?wt" "0 \<le> ?wt" by simp_all
  let ?b = "batches ds ! nat batchId"
  let ?n = "nat (batch_size args)"
  from id have ib: "nat batchId < length (batches ds)" by simp
  from batches_partition[OF ok bs] ib
  have be: "batch_edges (edges ds) ?b = take ?n (drop (nat batchId * ?n) es)"
    and len: "length (batch_edges (edges ds) ?b) = ?n"
    and en: "end_iter ?b = (nat batchId + 1) * ?n"
    and le: "end_iter ?b \<le> length es - length es mod ?n" by blast+
  from bs(1) have npos: "0 < ?n" by simp
  from le have w: "nat batchId * ?n + ?n \<le> length es" by (simp add: en)
  have nemp: "batch_edges (edges ds) ?b \<noteq> []" using len npos by auto
  have "last (batch_edges (edges ds) ?b) = batch_edges (edges ds) ?b ! (?n - 1)"
    using last_conv_nth[OF nemp] by (simp only: len)
  also have "\<dots> = es ! (nat batchId * ?n + (?n - 1))" using npos w by (simp add: be)
  also have "nat batchId * ?n + (?n - 1) = end_iter ?b - 1" using npos by (simp add: en)
  finally have "last (batch_edges (edges ds) ?b) = es ! (end_iter ?b - 1)" .
  then have l: "last (batch_edges es ?b) = es ! (end_iter ?b - 1)" by (simp only: i(6))
  have "end_iter ?b - 1 < length es" using w npos by (simp add: en)
  then have "es ! (end_iter ?b - 1) \<in> set es" by simp
  with ts have lt: "0 \<le> timestamp (es ! (end_iter ?b - 1))"
    "timestamp (es ! (end_iter ?b - 1)) < 2 ^ 60" by auto
  have d64: "int64 (timestamp (es ! (end_iter ?b - 1)) - ?wt)"
    using lt wt by (simp add: int64_def)
  show ?thesis
    using id i64 wt(1) d64
    by (simp add: getTimestampForWindow_def window_formula_def Let_def i(6,7) l)
qed


text \<open>
  The dataset of a loaded edge list computes the formula. For every dataset built from a
  loaded edge list and every valid batch id, \<^verbatim>\<open>getTimestampForWindow\<close> returns the
  greater of the least timestamp and the timestamp of the last edge of the batch minus
  the window width, where the window width is the floor of the product, in double
  precision, of the window size and the difference of the greatest and the least
  timestamp. Whenever the call returns a value, it is this one; and it does return it
  when the window size lies between 0 and 1, as the validation of the configuration
  requires, and the timestamps are non-negative and below \<open>2^60\<close>, so that no
  subtraction overflows.
\<close>

lemma edge_list_window_threshold:
  assumes ok: "EdgeListDataset_init args es = Inr ds"
    and bs: "1 \<le> batch_size args" "batch_size args < 2 ^ 63"
  shows "(getTimestampForWindow ds batchId = Inr t \<longrightarrow>
            0 \<le> batchId \<and> batchId < int (length (batches ds))
          \<and> t = window_formula (window_size args) (min_timestamp ds) (max_timestamp ds)
                (timestamp (last (batch_edges (edges ds) (batches ds ! nat batchId)))))
       \<and> (0 \<le> window_size args \<and> window_size args \<le> 1
            \<and> (\<forall>e\<in>set es. 0 \<le> timestamp e \<and> timestamp e < 2 ^ 60)
            \<and> 0 \<le> batchId \<and> batchId < int (length (batches ds))
          \<longrightarrow> getTimestampForWindow ds batchId
                = Inr (window_formula (window_size args) (min_timestamp ds) (max_timestamp ds)
                        (timestamp (last (batch_edges (edges ds) (batches ds ! nat batchId))))))"
  using getTimestampForWindow_formula[OF ok bs, of batchId t]
    getTimestampForWindow_total[OF ok bs, of batchId]
  by blast

lemma edge_list_window_threshold_example:
  "EdgeListDataset_init ex_args ex_edges = Inr ex_dataset
   \<and> 1 \<le> batch_size ex_args \<and> batch_size ex_args < 2 ^ 63
   \<and> 0 \<le> window_size ex_args \<and> window_size ex_args \<le> 1
   \<and> list_all (\<lambda>e. 0 \<le> timestamp e \<and> timestamp e < 2 ^ 60) ex_edges
   \<and> (1::int) < int (length (batches ex_dataset))
   \<and> timestamp (last (batch_edges (edges ex_dataset) (batches ex_dataset ! 1))) = 3
   \<and> getTimestampForWindow ex_dataset 1 = Inr (window_formula 1 0 4 3)
   \<and> window_formula 1 0 4 3 = 0"
  using edge_list_window_threshold[OF ex_init, of 1] ex_init
  by (simp add: ex_args_def ex_edges_def ex_dataset_def batch_edges_def window_formula_def
      dmul_def of_int64_exact round_to_double_numeral round_down_def)

end
